theory Spec2Isabelle
  imports Complex_Main
begin

section \<open>Synthetic logged bandit data with action embeddings\<close>

text \<open>
  A shallow embedding of \<^verbatim>\<open>obp/dataset/synthetic_embed.py\<close>, class
  \<^verbatim>\<open>SyntheticBanditDatasetWithActionEmbeds\<close>.

  Conventions of the embedding.
  \<^item> A numpy float is a \<^typ>\<open>real\<close>: rounding, overflow, infinities and NaN are not modelled.
    The underflow of the exponential to 0 is modelled where a statement depends on it
    (\<open>softmax_float64\<close>).
  \<^item> A numpy array is a nested list in C order: a matrix is the list of its rows, a
    three-dimensional array \<open>t\<close> is indexed \<open>t ! i ! j ! k\<close>.
  \<^item> An exception is a value \<open>Inl e\<close> of the sum type \<open>error + 'a\<close>.
  \<^item> The numpy generator \<^verbatim>\<open>self.random_\<close> is a state of an abstract type \<open>'g\<close>; the
    primitive draws of the generator are the fields of a record of operations, each taking the
    state and returning the value drawn together with the next state.
\<close>

subsection \<open>Errors and Python values\<close>

datatype error = TypeError | ValueError | ShapeError

definition rbind :: "error + 'a \<Rightarrow> ('a \<Rightarrow> error + 'b) \<Rightarrow> error + 'b" where
  "rbind m f = (case m of Inl e \<Rightarrow> Inl e | Inr x \<Rightarrow> f x)"

text \<open>
  The argument of \<^verbatim>\<open>obtain_batch_bandit_feedback\<close> as the caller may pass it. A Python
  \<^verbatim>\<open>bool\<close> is an \<^verbatim>\<open>int\<close> (\<^verbatim>\<open>True\<close> is 1) and is covered by \<open>PInt\<close>.
\<close>

datatype pyval = PInt int | PFloat real | PStr string | PNone

type_synonym vec = "real list"
type_synonym mat = "real list list"
type_synonym tensor = "real list list list"

datatype RewardType = BINARY | CONTINUOUS

text \<open>\<^verbatim>\<open>RewardType(s)\<close>: the enumeration's constructor raises ValueError on any other string.\<close>

definition RewardType_of :: "string \<Rightarrow> error + RewardType" where
  "RewardType_of s =
     (if s = ''binary'' then Inr BINARY
      else if s = ''continuous'' then Inr CONTINUOUS
      else Inl ValueError)"

subsection \<open>sklearn's check_scalar\<close>

text \<open>
  \<^verbatim>\<open>check_scalar(x, name, int, min_val=lo, max_val=hi)\<close> on a value already known to be an
  \<^verbatim>\<open>int\<close>: ValueError when a bound is given and violated (both bounds are inclusive).
\<close>

definition check_scalar :: "int \<Rightarrow> int option \<Rightarrow> int option \<Rightarrow> error + unit" where
  "check_scalar x lo hi =
     (if (case lo of None \<Rightarrow> False | Some l \<Rightarrow> x < l) then Inl ValueError
      else if (case hi of None \<Rightarrow> False | Some h \<Rightarrow> h < x) then Inl ValueError
      else Inr ())"

definition check_scalar_real :: "real \<Rightarrow> real option \<Rightarrow> error + unit" where
  "check_scalar_real x lo =
     (if (case lo of None \<Rightarrow> False | Some l \<Rightarrow> x < l) then Inl ValueError else Inr ())"

text \<open>
  The same check on an arbitrary Python value: the type is tested first (TypeError), then
  the lower bound (ValueError).
\<close>

definition check_scalar_pyint :: "pyval \<Rightarrow> int \<Rightarrow> error + int" where
  "check_scalar_pyint v lo =
     (case v of
        PInt n \<Rightarrow> (if n < lo then Inl ValueError else Inr n)
      | _ \<Rightarrow> Inl TypeError)"

subsection \<open>The random generator\<close>

text \<open>
  The primitive draws of \<^verbatim>\<open>numpy.random.RandomState\<close> that the class uses.
  \<open>seed_rng s\<close> is the state of \<^verbatim>\<open>RandomState(s)\<close>; \<open>next_gauss\<close> draws a standard normal,
  \<open>next_double\<close> a uniform number of the half-open unit interval, \<open>next_gumbel\<close> a standard
  Gumbel, \<open>next_gamma a\<close> a standard gamma of shape \<open>a\<close>, \<open>next_binomial n p\<close> a binomial.
\<close>

record 'g rng_ops =
  seed_rng :: "int \<Rightarrow> 'g"
  next_gauss :: "'g \<Rightarrow> real \<times> 'g"
  next_double :: "'g \<Rightarrow> real \<times> 'g"
  next_gumbel :: "'g \<Rightarrow> real \<times> 'g"
  next_gamma :: "real \<Rightarrow> 'g \<Rightarrow> real \<times> 'g"
  next_binomial :: "nat \<Rightarrow> real \<Rightarrow> 'g \<Rightarrow> nat \<times> 'g"

text \<open>What numpy documents about the range of these draws.\<close>

definition rng_contract :: "'g rng_ops \<Rightarrow> bool" where
  "rng_contract ops \<longleftrightarrow>
     (\<forall>g. 0 \<le> fst (next_double ops g) \<and> fst (next_double ops g) < 1) \<and>
     (\<forall>a g. 0 < a \<longrightarrow> 0 < fst (next_gamma ops a g)) \<and>
     (\<forall>n p g. fst (next_binomial ops n p g) \<le> n)"

text \<open>
  An array of draws is filled element by element, the state threaded through:
  \<open>draws_with f ps g\<close> draws one value for each parameter of \<open>ps\<close>, \<open>draws f n g\<close> draws
  \<open>n\<close> values. A matrix of shape \<open>(r, c)\<close> is \<open>draws (draws f c) r\<close>.
\<close>

fun draws_with :: "('p \<Rightarrow> 'g \<Rightarrow> 'a \<times> 'g) \<Rightarrow> 'p list \<Rightarrow> 'g \<Rightarrow> 'a list \<times> 'g" where
  "draws_with f [] g = ([], g)"
| "draws_with f (p # ps) g =
     (case f p g of (x, g1) \<Rightarrow> (case draws_with f ps g1 of (xs, g2) \<Rightarrow> (x # xs, g2)))"

definition draws :: "('g \<Rightarrow> 'a \<times> 'g) \<Rightarrow> nat \<Rightarrow> 'g \<Rightarrow> 'a list \<times> 'g" where
  "draws f n g = draws_with (\<lambda>_. f) (replicate n ()) g"

text \<open>\<^verbatim>\<open>check_random_state(seed)\<close> on an integer: numpy accepts seeds from 0 to \<open>2^32 - 1\<close>.\<close>

definition check_random_state :: "'g rng_ops \<Rightarrow> int \<Rightarrow> error + 'g" where
  "check_random_state ops s =
     (if 0 \<le> s \<and> s < 2 ^ 32 then Inr (seed_rng ops s) else Inl ValueError)"

text \<open>\<^verbatim>\<open>random_.normal(loc, scale)\<close>, one element: \<open>loc + scale * z\<close> for a standard normal \<open>z\<close>.\<close>

definition next_normal :: "'g rng_ops \<Rightarrow> real \<Rightarrow> real \<Rightarrow> 'g \<Rightarrow> real \<times> 'g" where
  "next_normal ops loc scale g = (case next_gauss ops g of (z, g1) \<Rightarrow> (loc + scale * z, g1))"

text \<open>
  \<^verbatim>\<open>random_.dirichlet(alpha, size=1)\<close>: ValueError if some \<open>alpha\<close> is not positive; otherwise
  one gamma draw per entry of \<open>alpha\<close>, divided by their sum. The result has the length of
  \<open>alpha\<close> (the leading axis of length 1 is dropped by the assignment that consumes it).
\<close>

definition dirichlet :: "'g rng_ops \<Rightarrow> real list \<Rightarrow> 'g \<Rightarrow> (error + real list) \<times> 'g" where
  "dirichlet ops alpha g =
     (if \<exists>a \<in> set alpha. a \<le> 0 then (Inl ValueError, g)
      else case draws_with (next_gamma ops) alpha g of
             (ys, g1) \<Rightarrow> (Inr (map (\<lambda>y. y * (1 / sum_list ys)) ys), g1))"

text \<open>
  \<^verbatim>\<open>random_.binomial(n=1, p=ps)\<close>: ValueError if some \<open>p\<close> is outside \<open>[0, 1]\<close>; otherwise one
  binomial draw per entry.
\<close>

definition binomial :: "'g rng_ops \<Rightarrow> nat \<Rightarrow> real list \<Rightarrow> 'g \<Rightarrow> (error + nat list) \<times> 'g" where
  "binomial ops n ps g =
     (if \<exists>p \<in> set ps. p < 0 \<or> 1 < p then (Inl ValueError, g)
      else case draws_with (next_binomial ops n) ps g of (xs, g1) \<Rightarrow> (Inr xs, g1))"

subsection \<open>Helpers of \<^verbatim>\<open>obp.utils\<close>\<close>

text \<open>
  Modelled from the spec: \<^verbatim>\<open>softmax\<close> of \<^verbatim>\<open>obp/utils.py\<close>, which is not among the sources.
  The softmax of one vector of logits: each entry is its exponential divided by the sum of
  the exponentials. On a matrix it is applied to every row (the action axis); on the
  three-dimensional logits of the embedding distribution it is applied along the category
  axis, independently for each action and dimension.
\<close>

definition softmax :: "vec \<Rightarrow> vec" where
  "softmax xs = map (\<lambda>x. exp x / (\<Sum>y\<leftarrow>xs. exp y)) xs"

definition softmax_rows :: "mat \<Rightarrow> mat" where
  "softmax_rows m = map softmax m"

text \<open>\<open>column m d\<close> is \<^verbatim>\<open>m[:, d]\<close> of a matrix stored by rows.\<close>

definition column :: "'a list list \<Rightarrow> nat \<Rightarrow> 'a list" where
  "column m d = map (\<lambda>row. row ! d) m"

definition softmax_axis1 :: "nat \<Rightarrow> tensor \<Rightarrow> tensor" where
  "softmax_axis1 D t =
     map (\<lambda>m. map (\<lambda>k. map (\<lambda>d. softmax (column m d) ! k) [0..<D]) [0..<length m]) t"

text \<open>
  Modelled from the spec: \<^verbatim>\<open>sample_action_fast\<close> of \<^verbatim>\<open>obp/utils.py\<close>, which is not among the
  sources. A categorical sampler: from a generator seeded with the given seed it draws one
  uniform number per row of a matrix of probabilities and returns, for each row, the first
  index at which the cumulative sum of the row exceeds the number drawn (index 0 if none does).
\<close>

fun cumsum_from :: "real \<Rightarrow> vec \<Rightarrow> vec" where
  "cumsum_from acc [] = []"
| "cumsum_from acc (x # xs) = (acc + x) # cumsum_from (acc + x) xs"

definition cumsum :: "vec \<Rightarrow> vec" where
  "cumsum xs = cumsum_from 0 xs"

text \<open>\<^verbatim>\<open>argmax\<close> of a row of booleans: the first index holding True, 0 when there is none.\<close>

definition argmax_bool :: "bool list \<Rightarrow> nat" where
  "argmax_bool bs = (if True \<in> set bs then length (takeWhile (\<lambda>b. \<not> b) bs) else 0)"

definition sample_row :: "vec \<Rightarrow> real \<Rightarrow> nat" where
  "sample_row row u = argmax_bool (map (\<lambda>c. u < c) (cumsum row))"

definition sample_action_fast :: "'g rng_ops \<Rightarrow> mat \<Rightarrow> int \<Rightarrow> error + nat list" where
  "sample_action_fast ops action_dist seed =
     rbind (check_random_state ops seed)
       (\<lambda>g. Inr (map2 sample_row action_dist
                   (fst (draws (next_double ops) (length action_dist) g))))"

subsection \<open>Array helpers\<close>

text \<open>A matrix of shape \<open>(r, c)\<close>.\<close>

definition is_mat :: "'a list list \<Rightarrow> nat \<Rightarrow> nat \<Rightarrow> bool" where
  "is_mat m r c \<longleftrightarrow> length m = r \<and> list_all (\<lambda>row. length row = c) m"

text \<open>A three-dimensional array of shape \<open>(a, b, c)\<close>.\<close>

definition is_tensor :: "'a list list list \<Rightarrow> nat \<Rightarrow> nat \<Rightarrow> nat \<Rightarrow> bool" where
  "is_tensor t a b c \<longleftrightarrow> length t = a \<and> list_all (\<lambda>m. is_mat m b c) t"

text \<open>
  \<^verbatim>\<open>np.argsort(xs)\<close>: the indices of \<open>xs\<close> in ascending order of their entries (ties, which
  numpy's unstable sort may order either way, are kept in index order here).
\<close>

definition argsort :: "vec \<Rightarrow> nat list" where
  "argsort xs = sort_key (\<lambda>i. xs ! i) [0..<length xs]"

text \<open>
  \<^verbatim>\<open>row[idx] = vals\<close> for an index list and a value list of the same length: the writes are
  made in order.
\<close>

fun scatter :: "'a list \<Rightarrow> nat list \<Rightarrow> 'a list \<Rightarrow> 'a list" where
  "scatter row (i # idx) (v # vals) = scatter (row[i := v]) idx vals"
| "scatter row _ _ = row"

text \<open>A loop whose body may raise: the first error ends it.\<close>

fun for_each :: "('a \<Rightarrow> error + 'b) \<Rightarrow> 'a list \<Rightarrow> error + 'b list" where
  "for_each f [] = Inr []"
| "for_each f (x # xs) = rbind (f x) (\<lambda>y. rbind (for_each f xs) (\<lambda>ys. Inr (y # ys)))"

subsection \<open>The dataset class\<close>

text \<open>
  The fields of the dataclass. The integer fields are Python integers; where the code uses
  one as an array size or a slice bound it is converted with \<^const>\<open>nat\<close>, which is exact on
  the non-negative values that the constructor's validation establishes.
  The pluggable functions take \<open>context\<close>, \<open>action_context\<close> and \<open>random_state\<close>.
\<close>

record config =
  n_actions :: int
  dim_context :: int
  reward_type :: string
  reward_function :: "(mat \<Rightarrow> mat \<Rightarrow> int \<Rightarrow> mat) option"
  reward_std :: real
  behavior_policy_function :: "(mat \<Rightarrow> int list list \<Rightarrow> int \<Rightarrow> mat) option"
  beta :: real
  n_cat_per_dim :: int
  latent_param_mat_dim :: int
  n_cat_dim :: int
  p_e_a_param_std :: real
  n_unobserved_cat_dim :: int
  n_irrelevant_cat_dim :: int
  n_deficient_actions :: int
  random_state :: int
  dataset_name :: string

text \<open>
  The instance after \<^verbatim>\<open>__post_init__\<close>: the fields above and the attributes it creates
  (\<open>random_gen\<close> is the attribute \<^verbatim>\<open>random_\<close>, the generator owned by the instance).
\<close>

record 'g dataset = config +
  random_gen :: 'g
  action_context :: "int list list"
  latent_cat_param :: tensor
  p_e_a :: tensor
  action_context_reg :: "nat list list"

text \<open>
  The default reward functions of \<^verbatim>\<open>obp/dataset/synthetic.py\<close> are pluggable functions outside
  the sources; the constructor only stores one of them.
\<close>

record reward_defaults =
  logistic_reward_function :: "mat \<Rightarrow> mat \<Rightarrow> int \<Rightarrow> mat"
  linear_reward_function :: "mat \<Rightarrow> mat \<Rightarrow> int \<Rightarrow> mat"

text \<open>
  Modelled from the spec: \<^verbatim>\<open>SyntheticBanditDataset.__post_init__\<close> of
  \<^verbatim>\<open>obp/dataset/synthetic.py\<close>, which is not among the sources. It validates the base
  configuration (at least two actions, a context of at least one dimension, a reward type
  that is binary or continuous, a positive reward standard deviation for continuous rewards,
  between 0 and \<open>n_actions - 1\<close> deficient actions), creates the generator from the seed and
  stores the action context handed to the behaviour-policy function. The spec does not say
  what that action context is; it is the one-hot encoding of the actions here.
\<close>

definition base_post_init :: "'g rng_ops \<Rightarrow> config \<Rightarrow> error + ('g \<times> int list list)" where
  "base_post_init ops c =
     rbind (check_scalar (n_actions c) (Some 2) None) (\<lambda>_.
     rbind (check_scalar (dim_context c) (Some 1) None) (\<lambda>_.
     rbind (check_scalar (n_deficient_actions c) (Some 0) (Some (n_actions c - 1))) (\<lambda>_.
     rbind (check_random_state ops (random_state c)) (\<lambda>g.
     rbind (RewardType_of (reward_type c)) (\<lambda>rt.
       if rt = CONTINUOUS \<and> reward_std c \<le> 0 then Inl ValueError
       else Inr (g, map (\<lambda>i. map (\<lambda>j. if i = j then 1 else 0) [0..<nat (n_actions c)])
                      [0..<nat (n_actions c)]))))))"

text \<open>\<^verbatim>\<open>t[:, :, d]\<close> of a three-dimensional array: one row per first index.\<close>

definition slice_dim :: "'a list list list \<Rightarrow> nat \<Rightarrow> 'a list list" where
  "slice_dim t d = map (\<lambda>m. column m d) t"

text \<open>
  The array whose columns are the given vectors: \<^verbatim>\<open>out[:, d] = cols[d]\<close> for every \<open>d\<close>, on
  an array of \<open>n\<close> rows.
\<close>

definition from_columns :: "nat \<Rightarrow> 'a list list \<Rightarrow> 'a list list" where
  "from_columns n cols = map (\<lambda>r. map (\<lambda>col. col ! r) cols) [0..<n]"

text \<open>
  \<^verbatim>\<open>_define_action_embed\<close>: the latent parameters of shape \<open>(n_cat_dim, n_cat_per_dim,
  latent_param_mat_dim)\<close>, the embedding distribution of shape \<open>(n_actions, n_cat_per_dim,
  n_cat_dim)\<close> and, per dimension \<open>d\<close>, one category sampled for each action with the seed
  \<open>random_state + d\<close>. It is called after the three counters were incremented.
\<close>

definition define_action_embed ::
  "'g rng_ops \<Rightarrow> config \<Rightarrow> 'g \<Rightarrow> error + (tensor \<times> tensor \<times> nat list list \<times> 'g)" where
  "define_action_embed ops c g =
     (case draws (draws (draws (next_normal ops 0 1) (nat (latent_param_mat_dim c)))
                   (nat (n_cat_per_dim c))) (nat (n_cat_dim c)) g of
        (latent, g1) \<Rightarrow>
     (case draws (draws (draws (next_normal ops 0 (p_e_a_param_std c)) (nat (n_cat_dim c)))
                   (nat (n_cat_per_dim c))) (nat (n_actions c)) g1 of
        (logits, g2) \<Rightarrow>
       (let pea = softmax_axis1 (nat (n_cat_dim c)) logits in
        rbind (for_each (\<lambda>d. sample_action_fast ops (slice_dim pea d) (random_state c + int d))
                 [0..<nat (n_cat_dim c)])
          (\<lambda>cols. Inr (latent, pea, from_columns (nat (n_actions c)) cols, g2)))))"

text \<open>
  \<^verbatim>\<open>__post_init__\<close>: the base class first, then the validation of the embedding
  parameters, the three increments that reserve slot 0 of the dimension axis, the
  embedding model, and the default reward function.
\<close>

definition post_init ::
  "'g rng_ops \<Rightarrow> reward_defaults \<Rightarrow> config \<Rightarrow> error + 'g dataset" where
  "post_init ops dflt c =
     rbind (base_post_init ops c) (\<lambda>(g0, ac).
     rbind (check_scalar (n_cat_per_dim c) (Some 1) None) (\<lambda>_.
     rbind (check_scalar (latent_param_mat_dim c) (Some 1) None) (\<lambda>_.
     rbind (check_scalar (n_cat_dim c) (Some 1) None) (\<lambda>_.
     rbind (check_scalar_real (p_e_a_param_std c) (Some 0)) (\<lambda>_.
     rbind (check_scalar (n_unobserved_cat_dim c) (Some 0) (Some (n_cat_dim c))) (\<lambda>_.
     rbind (check_scalar (n_irrelevant_cat_dim c) (Some 0) (Some (n_cat_dim c))) (\<lambda>_.
     rbind (define_action_embed ops
              (c\<lparr>n_cat_dim := n_cat_dim c + 1,
                 n_unobserved_cat_dim := n_unobserved_cat_dim c + 1,
                 n_irrelevant_cat_dim := n_irrelevant_cat_dim c + 1\<rparr>) g0)
       (\<lambda>(latent, pea, reg, g1).
     rbind (case reward_function c of
              Some f \<Rightarrow> Inr (Some f)
            | None \<Rightarrow>
                rbind (RewardType_of (reward_type c))
                  (\<lambda>rt. Inr (Some (case rt of
                                      BINARY \<Rightarrow> logistic_reward_function dflt
                                    | CONTINUOUS \<Rightarrow> linear_reward_function dflt)))) (\<lambda>rf.
       Inr \<lparr>n_actions = n_actions c,
            dim_context = dim_context c,
            reward_type = reward_type c,
            reward_function = rf,
            reward_std = reward_std c,
            behavior_policy_function = behavior_policy_function c,
            beta = beta c,
            n_cat_per_dim = n_cat_per_dim c,
            latent_param_mat_dim = latent_param_mat_dim c,
            n_cat_dim = n_cat_dim c + 1,
            p_e_a_param_std = p_e_a_param_std c,
            n_unobserved_cat_dim = n_unobserved_cat_dim c + 1,
            n_irrelevant_cat_dim = n_irrelevant_cat_dim c + 1,
            n_deficient_actions = n_deficient_actions c,
            random_state = random_state c,
            dataset_name = dataset_name c,
            random_gen = g1,
            action_context = ac,
            latent_cat_param = latent,
            p_e_a = pea,
            action_context_reg = reg\<rparr>)))))))))"

subsection \<open>Batch generation\<close>

text \<open>The dictionary returned by \<^verbatim>\<open>obtain_batch_bandit_feedback\<close>, one field per key.\<close>

record feedback =
  fb_n_rounds :: int
  fb_n_actions :: int
  fb_action_context :: "nat list list"
  fb_action_embed :: "nat list list"
  fb_context :: mat
  fb_action :: "nat list"
  fb_position :: "unit option"
  fb_reward :: vec
  fb_expected_reward :: mat
  fb_q_x_e :: tensor
  fb_p_e_a :: tensor
  fb_pi_b :: tensor
  fb_pscore :: vec

text \<open>
  The importance of the dimensions: zeros of length \<open>n_cat_dim\<close>, whose entries from
  \<open>n_irrelevant_cat_dim\<close> on are overwritten by a Dirichlet draw with uniform parameters.
\<close>

definition sample_cat_dim_importance ::
  "'g rng_ops \<Rightarrow> 'g dataset \<Rightarrow> 'g \<Rightarrow> (error + vec) \<times> 'g" where
  "sample_cat_dim_importance ops self g =
     (case draws (next_double ops) (nat (n_cat_dim self - n_irrelevant_cat_dim self)) g of
        (alpha, g1) \<Rightarrow>
          (case dirichlet ops alpha g1 of
             (Inl e, g2) \<Rightarrow> (Inl e, g2)
           | (Inr w, g2) \<Rightarrow>
               (Inr (take (nat (n_irrelevant_cat_dim self))
                       (replicate (nat (n_cat_dim self)) 0) @ w), g2)))"

text \<open>
  The expected reward of every round and category, per dimension: the reward function is
  called once per dimension \<open>d\<close> on the contexts and \<^verbatim>\<open>latent_cat_param[d]\<close> with the seed
  \<open>random_state + d\<close>, and its result is stored as \<^verbatim>\<open>q_x_e[:, :, d]\<close>. A result that is not
  a matrix of shape \<open>(n_rounds, n_cat_per_dim)\<close> breaks the contract of the reward function;
  the model answers ShapeError there and does not follow numpy's broadcasting rules.
  Calling a reward function that is None is a TypeError.
\<close>

definition calc_q_x_e :: "'g dataset \<Rightarrow> nat \<Rightarrow> mat \<Rightarrow> error + tensor" where
  "calc_q_x_e self n contexts =
     (case reward_function self of
        None \<Rightarrow> Inl TypeError
      | Some f \<Rightarrow>
          rbind (for_each
                   (\<lambda>d. let q = f contexts (latent_cat_param self ! d) (random_state self + int d)
                        in if is_mat q n (nat (n_cat_per_dim self)) then Inr q
                           else Inl ShapeError)
                   [0..<nat (n_cat_dim self)])
            (\<lambda>qs. Inr (map (\<lambda>r. map (\<lambda>k. map (\<lambda>q. q ! r ! k) qs)
                                       [0..<nat (n_cat_per_dim self)]) [0..<n])))"

text \<open>
  \<^verbatim>\<open>q_x_a[:, :, d] = q_x_e[:, :, d] @ p_e_a[:, :, d].T\<close>, then the sum over \<open>d\<close> weighted by
  the importance of the dimensions.
\<close>

definition calc_q_x_a :: "'g dataset \<Rightarrow> nat \<Rightarrow> tensor \<Rightarrow> vec \<Rightarrow> mat" where
  "calc_q_x_a self n q_x_e imp =
     map (\<lambda>r. map (\<lambda>a. \<Sum>d\<leftarrow>[0..<nat (n_cat_dim self)].
                         (\<Sum>k\<leftarrow>[0..<nat (n_cat_per_dim self)].
                            q_x_e ! r ! k ! d * p_e_a self ! a ! k ! d) * imp ! d)
                [0..<nat (n_actions self)]) [0..<n]"

text \<open>
  The logits of the behaviour policy: the expected rewards, or the result of the
  behaviour-policy function, which by its contract is a matrix of shape
  \<open>(n_rounds, n_actions)\<close> (ShapeError otherwise, as for the reward function).
\<close>

definition calc_pi_b_logits :: "'g dataset \<Rightarrow> nat \<Rightarrow> mat \<Rightarrow> mat \<Rightarrow> error + mat" where
  "calc_pi_b_logits self n contexts q_x_a =
     (case behavior_policy_function self of
        None \<Rightarrow> Inr q_x_a
      | Some f \<Rightarrow>
          (let l = f contexts (action_context self) (random_state self)
           in if is_mat l n (nat (n_actions self)) then Inr l else Inl ShapeError))"

text \<open>
  The supported actions of each round: the indices of the \<open>n_supported\<close> largest entries of
  the round's row of Gumbel noise, largest first.
\<close>

definition supported_actions :: "nat \<Rightarrow> mat \<Rightarrow> nat list list" where
  "supported_actions n_supported gumbel = map (\<lambda>row. take n_supported (rev (argsort row))) gumbel"

text \<open>
  The behaviour policy. With deficient actions, every row starts as zeros and the softmax
  of \<open>beta\<close> times the logits of the supported actions is written at their indices; otherwise
  every row is the softmax of \<open>beta\<close> times the logits.
\<close>

definition calc_pi_b :: "'g rng_ops \<Rightarrow> 'g dataset \<Rightarrow> nat \<Rightarrow> mat \<Rightarrow> 'g \<Rightarrow> mat \<times> 'g" where
  "calc_pi_b ops self n logits g =
     (if 0 < n_deficient_actions self then
        (case draws (draws (next_gumbel ops) (nat (n_actions self))) n g of
           (gumbel, g1) \<Rightarrow>
             (let sup = supported_actions (nat (n_actions self - n_deficient_actions self)) gumbel
              in (map (\<lambda>r. scatter (replicate (nat (n_actions self)) 0) (sup ! r)
                             (softmax (map (\<lambda>a. beta self * logits ! r ! a) (sup ! r))))
                    [0..<n], g1)))
      else (softmax_rows (map (map (\<lambda>x. beta self * x)) logits), g))"

text \<open>
  The embedding of each round: per dimension \<open>d\<close>, one category sampled from
  \<^verbatim>\<open>p_e_a[actions, :, d]\<close> with the seed \<open>d\<close>.
\<close>

definition sample_action_embed ::
  "'g rng_ops \<Rightarrow> 'g dataset \<Rightarrow> nat \<Rightarrow> nat list \<Rightarrow> error + nat list list" where
  "sample_action_embed ops self n actions =
     rbind (for_each
              (\<lambda>d. sample_action_fast ops (map (\<lambda>a. column (p_e_a self ! a) d) actions) (int d))
              [0..<nat (n_cat_dim self)])
       (\<lambda>cols. Inr (from_columns n cols))"

definition calc_expected_rewards_factual ::
  "'g dataset \<Rightarrow> nat \<Rightarrow> vec \<Rightarrow> tensor \<Rightarrow> nat list list \<Rightarrow> vec" where
  "calc_expected_rewards_factual self n imp q_x_e action_embed =
     map (\<lambda>r. \<Sum>d\<leftarrow>[0..<nat (n_cat_dim self)]. imp ! d * q_x_e ! r ! (action_embed ! r ! d) ! d)
       [0..<n]"

text \<open>The realised rewards: binomial draws with one trial, or normal draws.\<close>

definition sample_rewards :: "'g rng_ops \<Rightarrow> 'g dataset \<Rightarrow> vec \<Rightarrow> 'g \<Rightarrow> (error + vec) \<times> 'g" where
  "sample_rewards ops self expected_rewards_factual g =
     (case RewardType_of (reward_type self) of
        Inl e \<Rightarrow> (Inl e, g)
      | Inr BINARY \<Rightarrow>
          (case binomial ops 1 expected_rewards_factual g of
             (Inl e, g1) \<Rightarrow> (Inl e, g1)
           | (Inr xs, g1) \<Rightarrow> (Inr (map real xs), g1))
      | Inr CONTINUOUS \<Rightarrow>
          (case draws_with (\<lambda>loc. next_normal ops loc (reward_std self))
                  expected_rewards_factual g of
             (xs, g1) \<Rightarrow> (Inr xs, g1)))"

text \<open>
  The local variables of \<^verbatim>\<open>obtain_batch_bandit_feedback\<close> when it reaches its
  \<^verbatim>\<open>return\<close> statement.
\<close>

record locals =
  n_rounds :: int
  contexts :: mat
  cat_dim_importance :: vec
  q_x_e :: tensor
  q_x_a :: mat
  pi_b_logits :: mat
  pi_b :: mat
  actions :: "nat list"
  action_embed :: "nat list list"
  expected_rewards_factual :: vec
  rewards :: vec

text \<open>
  The statements of \<^verbatim>\<open>obtain_batch_bandit_feedback\<close> before the \<^verbatim>\<open>return\<close>, in the order
  of the source. The result is the local variables or the exception raised, together with
  the state in which the statements leave the generator of the instance.
\<close>

definition obtain_batch_body ::
  "'g rng_ops \<Rightarrow> 'g dataset \<Rightarrow> pyval \<Rightarrow> (error + locals) \<times> 'g" where
  "obtain_batch_body ops self v =
     (case check_scalar_pyint v 1 of
        Inl e \<Rightarrow> (Inl e, random_gen self)
      | Inr n \<Rightarrow>
     (case draws (draws (next_normal ops 0 1) (nat (dim_context self))) (nat n)
             (random_gen self) of
        (ctx, g1) \<Rightarrow>
     (case sample_cat_dim_importance ops self g1 of
        (Inl e, g2) \<Rightarrow> (Inl e, g2)
      | (Inr imp, g2) \<Rightarrow>
     (case calc_q_x_e self (nat n) ctx of
        Inl e \<Rightarrow> (Inl e, g2)
      | Inr qe \<Rightarrow>
     (case calc_pi_b_logits self (nat n) ctx (calc_q_x_a self (nat n) qe imp) of
        Inl e \<Rightarrow> (Inl e, g2)
      | Inr logits \<Rightarrow>
     (case calc_pi_b ops self (nat n) logits g2 of
        (pb, g3) \<Rightarrow>
     (case sample_action_fast ops pb (random_state self) of
        Inl e \<Rightarrow> (Inl e, g3)
      | Inr acts \<Rightarrow>
     (case sample_action_embed ops self (nat n) acts of
        Inl e \<Rightarrow> (Inl e, g3)
      | Inr emb \<Rightarrow>
     (case sample_rewards ops self
             (calc_expected_rewards_factual self (nat n) imp qe emb) g3 of
        (Inl e, g4) \<Rightarrow> (Inl e, g4)
      | (Inr rw, g4) \<Rightarrow>
          (Inr \<lparr>n_rounds = n,
                contexts = ctx,
                cat_dim_importance = imp,
                q_x_e = qe,
                q_x_a = calc_q_x_a self (nat n) qe imp,
                pi_b_logits = logits,
                pi_b = pb,
                actions = acts,
                action_embed = emb,
                expected_rewards_factual =
                  calc_expected_rewards_factual self (nat n) imp qe emb,
                rewards = rw\<rparr>, g4))))))))))"

text \<open>The \<^verbatim>\<open>return dict(...)\<close> statement: the dictionary built from the local variables.\<close>

definition feedback_of :: "'g dataset \<Rightarrow> locals \<Rightarrow> feedback" where
  "feedback_of self l =
     \<lparr>fb_n_rounds = n_rounds l,
      fb_n_actions = n_actions self,
      fb_action_context = map (drop 1) (action_context_reg self),
      fb_action_embed = map (drop (nat (n_unobserved_cat_dim self))) (action_embed l),
      fb_context = contexts l,
      fb_action = actions l,
      fb_position = None,
      fb_reward = rewards l,
      fb_expected_reward = q_x_a l,
      fb_q_x_e = map (map (drop (nat (n_unobserved_cat_dim self)))) (q_x_e l),
      fb_p_e_a = map (map (drop (nat (n_unobserved_cat_dim self)))) (p_e_a self),
      fb_pi_b = map (map (\<lambda>x. [x])) (pi_b l),
      fb_pscore = map (\<lambda>r. pi_b l ! r ! (actions l ! r)) [0..<nat (n_rounds l)]\<rparr>"

text \<open>
  \<^verbatim>\<open>obtain_batch_bandit_feedback\<close>. The result is the dictionary returned or the exception
  raised, together with the instance as the call leaves it: the method assigns to no
  attribute, and the draws advance the generator of the instance.
\<close>

definition obtain_batch_bandit_feedback ::
  "'g rng_ops \<Rightarrow> 'g dataset \<Rightarrow> pyval \<Rightarrow> (error + feedback) \<times> 'g dataset" where
  "obtain_batch_bandit_feedback ops self v =
     (case obtain_batch_body ops self v of
        (Inl e, g) \<Rightarrow> (Inl e, self\<lparr>random_gen := g\<rparr>)
      | (Inr l, g) \<Rightarrow> (Inr (feedback_of self l), self\<lparr>random_gen := g\<rparr>))"

text \<open>
  The logits of the behaviour policy as a caller can recompute them from the dictionary
  returned: the expected rewards, or the behaviour-policy function applied to the contexts.
\<close>

definition behavior_logits :: "'g dataset \<Rightarrow> feedback \<Rightarrow> mat" where
  "behavior_logits self b =
     (case behavior_policy_function self of
        None \<Rightarrow> fb_expected_reward b
      | Some f \<Rightarrow> f (fb_context b) (action_context self) (random_state self))"

text \<open>
  The contracts of the pluggable functions, for batches of \<open>n\<close> rounds: the reward function
  answers a matrix of shape \<open>(n, n_cat_per_dim)\<close>, whose entries are probabilities when the
  rewards are binary; the behaviour-policy function, if there is one, answers a matrix of
  shape \<open>(n, n_actions)\<close>.
\<close>

definition reward_contract :: "'g dataset \<Rightarrow> nat \<Rightarrow> bool" where
  "reward_contract self n \<longleftrightarrow>
     (\<exists>f. reward_function self = Some f \<and>
        (\<forall>ctx lat s. length ctx = n \<and> length lat = nat (n_cat_per_dim self) \<longrightarrow>
           is_mat (f ctx lat s) n (nat (n_cat_per_dim self)) \<and>
           (reward_type self = ''binary'' \<longrightarrow>
              list_all (list_all (\<lambda>x. 0 \<le> x \<and> x \<le> 1)) (f ctx lat s))))"

definition policy_contract :: "'g dataset \<Rightarrow> nat \<Rightarrow> bool" where
  "policy_contract self n \<longleftrightarrow>
     (case behavior_policy_function self of
        None \<Rightarrow> True
      | Some f \<Rightarrow> \<forall>ctx ac s. length ctx = n \<longrightarrow> is_mat (f ctx ac s) n (nat (n_actions self)))"

text \<open>
  The instances a program can hold: the one the constructor returns, and the one any call of
  \<^verbatim>\<open>obtain_batch_bandit_feedback\<close> leaves behind.
\<close>

inductive reachable :: "'g rng_ops \<Rightarrow> reward_defaults \<Rightarrow> config \<Rightarrow> 'g dataset \<Rightarrow> bool"
  for ops :: "'g rng_ops" and dflt :: reward_defaults and c :: config where
  constructed: "post_init ops dflt c = Inr self \<Longrightarrow> reachable ops dflt c self"
| called: "reachable ops dflt c self \<Longrightarrow>
           reachable ops dflt c (snd (obtain_batch_bandit_feedback ops self v))"

subsection \<open>The class with its environment explicit\<close>

text \<open>
  The definitions above fix two things that the statements of this subsection leave open.
  \<^item> The softmax helper computes in exact arithmetic above. Here it is a parameter \<open>sm\<close>, a
    function from a vector of logits to a vector, so that a statement about which
    probabilities are 0 can be made for the exact softmax and for one that underflows.
  \<^item> Python code can draw from numpy's global generator: \<^verbatim>\<open>check_random_state(None)\<close> hands it
    out. Here the state \<open>w\<close> of that generator is threaded through every call of
    \<^verbatim>\<open>sample_action_fast\<close>, the one helper of the class that takes an optional seed, so that
    a statement that results do not depend on it can be made.
  The statements of the source are the same, in the same order.
\<close>

text \<open>
  The exponential on float64 as far as its zeros are concerned: numpy's \<^verbatim>\<open>exp\<close> returns
  exactly 0.0 for every argument below the logarithm of half the smallest positive
  float64, about -745.13. Rounding above that threshold is not modelled.
\<close>

definition exp_float64 :: "real \<Rightarrow> real" where
  "exp_float64 x = (if x < - 746 then 0 else exp x)"

text \<open>
  Modelled from the spec: \<^verbatim>\<open>softmax\<close> of \<^verbatim>\<open>obp/utils.py\<close>, which is not among the sources, as
  it runs on float64. The spec asks for a numerically stable softmax: the largest logit is
  subtracted before the exponential is taken, so that no exponent is positive and the sum
  of the exponentials is at least 1.
\<close>

definition softmax_float64 :: "vec \<Rightarrow> vec" where
  "softmax_float64 xs =
     map (\<lambda>x. exp_float64 (x - Max (set xs)) / (\<Sum>y\<leftarrow>xs. exp_float64 (y - Max (set xs)))) xs"

definition softmax_axis1_with :: "(vec \<Rightarrow> vec) \<Rightarrow> nat \<Rightarrow> tensor \<Rightarrow> tensor" where
  "softmax_axis1_with sm D t =
     map (\<lambda>m. map (\<lambda>k. map (\<lambda>d. sm (column m d) ! k) [0..<D]) [0..<length m]) t"

text \<open>
  Modelled from the spec: \<^verbatim>\<open>sample_action_fast\<close> of \<^verbatim>\<open>obp/utils.py\<close> with its optional seed.
  With a seed it makes its own generator and leaves the global one alone; without one it
  draws its uniform numbers from the global generator.
\<close>

definition sample_action_fast_amb ::
  "'g rng_ops \<Rightarrow> mat \<Rightarrow> int option \<Rightarrow> 'g \<Rightarrow> (error + nat list) \<times> 'g" where
  "sample_action_fast_amb ops action_dist seed w =
     (case seed of
        None \<Rightarrow>
          (case draws (next_double ops) (length action_dist) w of
             (us, w1) \<Rightarrow> (Inr (map2 sample_row action_dist us), w1))
      | Some s \<Rightarrow> (sample_action_fast ops action_dist s, w))"

text \<open>A loop whose body may raise and may advance the global generator.\<close>

fun for_each_amb ::
  "('a \<Rightarrow> 'w \<Rightarrow> (error + 'b) \<times> 'w) \<Rightarrow> 'a list \<Rightarrow> 'w \<Rightarrow> (error + 'b list) \<times> 'w" where
  "for_each_amb f [] w = (Inr [], w)"
| "for_each_amb f (x # xs) w =
     (case f x w of
        (Inl e, w1) \<Rightarrow> (Inl e, w1)
      | (Inr y, w1) \<Rightarrow>
          (case for_each_amb f xs w1 of
             (Inl e, w2) \<Rightarrow> (Inl e, w2)
           | (Inr ys, w2) \<Rightarrow> (Inr (y # ys), w2)))"

text \<open>\<^verbatim>\<open>_define_action_embed\<close>: every call of the sampler is given the seed \<open>random_state + d\<close>.\<close>

definition define_action_embed_amb ::
  "(vec \<Rightarrow> vec) \<Rightarrow> 'g rng_ops \<Rightarrow> config \<Rightarrow> 'g \<Rightarrow> 'g \<Rightarrow>
   (error + (tensor \<times> tensor \<times> nat list list \<times> 'g)) \<times> 'g" where
  "define_action_embed_amb sm ops c g w =
     (case draws (draws (draws (next_normal ops 0 1) (nat (latent_param_mat_dim c)))
                   (nat (n_cat_per_dim c))) (nat (n_cat_dim c)) g of
        (latent, g1) \<Rightarrow>
     (case draws (draws (draws (next_normal ops 0 (p_e_a_param_std c)) (nat (n_cat_dim c)))
                   (nat (n_cat_per_dim c))) (nat (n_actions c)) g1 of
        (logits, g2) \<Rightarrow>
       (let pea = softmax_axis1_with sm (nat (n_cat_dim c)) logits in
        (case for_each_amb
                (\<lambda>d. sample_action_fast_amb ops (slice_dim pea d)
                        (Some (random_state c + int d)))
                [0..<nat (n_cat_dim c)] w of
           (Inl e, w1) \<Rightarrow> (Inl e, w1)
         | (Inr cols, w1) \<Rightarrow>
             (Inr (latent, pea, from_columns (nat (n_actions c)) cols, g2), w1)))))"

text \<open>
  \<^verbatim>\<open>__post_init__\<close>: the validation touches no generator; the generator of the instance is
  made from \<open>random_state\<close>.
\<close>

definition post_init_amb ::
  "(vec \<Rightarrow> vec) \<Rightarrow> 'g rng_ops \<Rightarrow> reward_defaults \<Rightarrow> config \<Rightarrow> 'g \<Rightarrow>
   (error + 'g dataset) \<times> 'g" where
  "post_init_amb sm ops dflt c w =
     (case rbind (base_post_init ops c) (\<lambda>(g0, ac).
           rbind (check_scalar (n_cat_per_dim c) (Some 1) None) (\<lambda>_.
           rbind (check_scalar (latent_param_mat_dim c) (Some 1) None) (\<lambda>_.
           rbind (check_scalar (n_cat_dim c) (Some 1) None) (\<lambda>_.
           rbind (check_scalar_real (p_e_a_param_std c) (Some 0)) (\<lambda>_.
           rbind (check_scalar (n_unobserved_cat_dim c) (Some 0) (Some (n_cat_dim c))) (\<lambda>_.
           rbind (check_scalar (n_irrelevant_cat_dim c) (Some 0) (Some (n_cat_dim c))) (\<lambda>_.
             Inr (g0, ac)))))))) of
        Inl e \<Rightarrow> (Inl e, w)
      | Inr (g0, ac) \<Rightarrow>
     (case define_action_embed_amb sm ops
             (c\<lparr>n_cat_dim := n_cat_dim c + 1,
                n_unobserved_cat_dim := n_unobserved_cat_dim c + 1,
                n_irrelevant_cat_dim := n_irrelevant_cat_dim c + 1\<rparr>) g0 w of
        (Inl e, w1) \<Rightarrow> (Inl e, w1)
      | (Inr (latent, pea, reg, g1), w1) \<Rightarrow>
          (rbind (case reward_function c of
                    Some f \<Rightarrow> Inr (Some f)
                  | None \<Rightarrow>
                      rbind (RewardType_of (reward_type c))
                        (\<lambda>rt. Inr (Some (case rt of
                                            BINARY \<Rightarrow> logistic_reward_function dflt
                                          | CONTINUOUS \<Rightarrow> linear_reward_function dflt))))
             (\<lambda>rf.
                Inr \<lparr>n_actions = n_actions c,
                     dim_context = dim_context c,
                     reward_type = reward_type c,
                     reward_function = rf,
                     reward_std = reward_std c,
                     behavior_policy_function = behavior_policy_function c,
                     beta = beta c,
                     n_cat_per_dim = n_cat_per_dim c,
                     latent_param_mat_dim = latent_param_mat_dim c,
                     n_cat_dim = n_cat_dim c + 1,
                     p_e_a_param_std = p_e_a_param_std c,
                     n_unobserved_cat_dim = n_unobserved_cat_dim c + 1,
                     n_irrelevant_cat_dim = n_irrelevant_cat_dim c + 1,
                     n_deficient_actions = n_deficient_actions c,
                     random_state = random_state c,
                     dataset_name = dataset_name c,
                     random_gen = g1,
                     action_context = ac,
                     latent_cat_param = latent,
                     p_e_a = pea,
                     action_context_reg = reg\<rparr>), w1)))"

text \<open>The behaviour policy, lines 293 to 307 of the source, for the softmax \<open>sm\<close>.\<close>

definition calc_pi_b_with ::
  "(vec \<Rightarrow> vec) \<Rightarrow> 'g rng_ops \<Rightarrow> 'g dataset \<Rightarrow> nat \<Rightarrow> mat \<Rightarrow> 'g \<Rightarrow> mat \<times> 'g" where
  "calc_pi_b_with sm ops self n logits g =
     (if 0 < n_deficient_actions self then
        (case draws (draws (next_gumbel ops) (nat (n_actions self))) n g of
           (gumbel, g1) \<Rightarrow>
             (let sup = supported_actions (nat (n_actions self - n_deficient_actions self)) gumbel
              in (map (\<lambda>r. scatter (replicate (nat (n_actions self)) 0) (sup ! r)
                             (sm (map (\<lambda>a. beta self * logits ! r ! a) (sup ! r))))
                    [0..<n], g1)))
      else (map sm (map (map (\<lambda>x. beta self * x)) logits), g))"

text \<open>The embeddings: every call of the sampler is given the seed \<open>d\<close>.\<close>

definition sample_action_embed_amb ::
  "'g rng_ops \<Rightarrow> 'g dataset \<Rightarrow> nat \<Rightarrow> nat list \<Rightarrow> 'g \<Rightarrow> (error + nat list list) \<times> 'g" where
  "sample_action_embed_amb ops self n acts w =
     (case for_each_amb
             (\<lambda>d. sample_action_fast_amb ops (map (\<lambda>a. column (p_e_a self ! a) d) acts)
                     (Some (int d)))
             [0..<nat (n_cat_dim self)] w of
        (Inl e, w1) \<Rightarrow> (Inl e, w1)
      | (Inr cols, w1) \<Rightarrow> (Inr (from_columns n cols), w1))"

text \<open>
  The statements of \<^verbatim>\<open>obtain_batch_bandit_feedback\<close> before the \<^verbatim>\<open>return\<close>. The result is the
  local variables or the exception raised with the state of the generator of the instance,
  together with the state of the global generator. The actions are sampled with the seed
  \<open>random_state\<close>.
\<close>

definition obtain_batch_body_amb ::
  "(vec \<Rightarrow> vec) \<Rightarrow> 'g rng_ops \<Rightarrow> 'g dataset \<Rightarrow> pyval \<Rightarrow> 'g \<Rightarrow>
   ((error + locals) \<times> 'g) \<times> 'g" where
  "obtain_batch_body_amb sm ops self v w =
     (case check_scalar_pyint v 1 of
        Inl e \<Rightarrow> ((Inl e, random_gen self), w)
      | Inr n \<Rightarrow>
     (case draws (draws (next_normal ops 0 1) (nat (dim_context self))) (nat n)
             (random_gen self) of
        (ctx, g1) \<Rightarrow>
     (case sample_cat_dim_importance ops self g1 of
        (Inl e, g2) \<Rightarrow> ((Inl e, g2), w)
      | (Inr imp, g2) \<Rightarrow>
     (case calc_q_x_e self (nat n) ctx of
        Inl e \<Rightarrow> ((Inl e, g2), w)
      | Inr qe \<Rightarrow>
     (case calc_pi_b_logits self (nat n) ctx (calc_q_x_a self (nat n) qe imp) of
        Inl e \<Rightarrow> ((Inl e, g2), w)
      | Inr logits \<Rightarrow>
     (case calc_pi_b_with sm ops self (nat n) logits g2 of
        (pb, g3) \<Rightarrow>
     (case sample_action_fast_amb ops pb (Some (random_state self)) w of
        (Inl e, w1) \<Rightarrow> ((Inl e, g3), w1)
      | (Inr acts, w1) \<Rightarrow>
     (case sample_action_embed_amb ops self (nat n) acts w1 of
        (Inl e, w2) \<Rightarrow> ((Inl e, g3), w2)
      | (Inr emb, w2) \<Rightarrow>
     (case sample_rewards ops self
             (calc_expected_rewards_factual self (nat n) imp qe emb) g3 of
        (Inl e, g4) \<Rightarrow> ((Inl e, g4), w2)
      | (Inr rw, g4) \<Rightarrow>
          ((Inr \<lparr>n_rounds = n,
                 contexts = ctx,
                 cat_dim_importance = imp,
                 q_x_e = qe,
                 q_x_a = calc_q_x_a self (nat n) qe imp,
                 pi_b_logits = logits,
                 pi_b = pb,
                 actions = acts,
                 action_embed = emb,
                 expected_rewards_factual =
                   calc_expected_rewards_factual self (nat n) imp qe emb,
                 rewards = rw\<rparr>, g4), w2))))))))))"

definition obtain_batch_bandit_feedback_amb ::
  "(vec \<Rightarrow> vec) \<Rightarrow> 'g rng_ops \<Rightarrow> 'g dataset \<Rightarrow> pyval \<Rightarrow> 'g \<Rightarrow>
   ((error + feedback) \<times> 'g dataset) \<times> 'g" where
  "obtain_batch_bandit_feedback_amb sm ops self v w =
     (case obtain_batch_body_amb sm ops self v w of
        ((Inl e, g), w1) \<Rightarrow> ((Inl e, self\<lparr>random_gen := g\<rparr>), w1)
      | ((Inr l, g), w1) \<Rightarrow> ((Inr (feedback_of self l), self\<lparr>random_gen := g\<rparr>), w1))"

subsection \<open>A concrete generator and three concrete configurations\<close>

text \<open>
  A generator whose state counts the draws made: every normal draw is 0, every uniform draw
  is 1/2, the Gumbel draws increase with the state, every gamma draw is 1, and a binomial
  draw is all successes when \<open>p\<close> is at least 1/2.
\<close>

definition example_ops :: "nat rng_ops" where
  "example_ops =
     \<lparr>seed_rng = (\<lambda>s. 0),
      next_gauss = (\<lambda>g. (0, Suc g)),
      next_double = (\<lambda>g. (1 / 2, Suc g)),
      next_gumbel = (\<lambda>g. (real g, Suc g)),
      next_gamma = (\<lambda>a g. (1, Suc g)),
      next_binomial = (\<lambda>n p g. (if 1 / 2 \<le> p then n else 0, Suc g))\<rparr>"

text \<open>A reward function that answers 1/2 for every round and category.\<close>

definition example_reward :: "mat \<Rightarrow> mat \<Rightarrow> int \<Rightarrow> mat" where
  "example_reward ctx lat s = map (\<lambda>_. map (\<lambda>_. 1 / 2) lat) ctx"

definition example_defaults :: reward_defaults where
  "example_defaults =
     \<lparr>logistic_reward_function = example_reward, linear_reward_function = example_reward\<rparr>"

text \<open>
  Three actions, two of them deficient (the largest number allowed), two categories per
  dimension, two dimensions of which one is unobserved, binary rewards.
\<close>

definition example_config :: config where
  "example_config =
     \<lparr>n_actions = 3, dim_context = 1, reward_type = ''binary'', reward_function = None,
      reward_std = 1, behavior_policy_function = None, beta = 0, n_cat_per_dim = 2,
      latent_param_mat_dim = 1, n_cat_dim = 2, p_e_a_param_std = 1,
      n_unobserved_cat_dim = 1, n_irrelevant_cat_dim = 0, n_deficient_actions = 2,
      random_state = 12345, dataset_name = ''example''\<rparr>"

text \<open>The same with no deficient action and continuous rewards.\<close>

definition example_config_full :: config where
  "example_config_full =
     example_config\<lparr>reward_type := ''continuous'', n_deficient_actions := 0\<rparr>"

text \<open>One dimension, and that dimension irrelevant to the rewards.\<close>

definition example_config_irrelevant :: config where
  "example_config_irrelevant =
     example_config\<lparr>n_cat_dim := 1, n_unobserved_cat_dim := 0, n_irrelevant_cat_dim := 1,
                    n_deficient_actions := 0\<rparr>"

text \<open>The instances that the constructor builds from these configurations.\<close>

definition example_self :: "nat dataset" where
  "example_self =
     \<lparr>n_actions = 3, dim_context = 1, reward_type = ''binary'',
      reward_function = Some example_reward, reward_std = 1,
      behavior_policy_function = None, beta = 0, n_cat_per_dim = 2,
      latent_param_mat_dim = 1, n_cat_dim = 3, p_e_a_param_std = 1,
      n_unobserved_cat_dim = 2, n_irrelevant_cat_dim = 1,
      n_deficient_actions = 2, random_state = 12345, dataset_name = ''example'',
      random_gen = 24,
      action_context = [[1, 0, 0], [0, 1, 0], [0, 0, 1]],
      latent_cat_param = [[[0], [0]], [[0], [0]], [[0], [0]]],
      p_e_a = [[[1 / 2, 1 / 2, 1 / 2], [1 / 2, 1 / 2, 1 / 2]],
               [[1 / 2, 1 / 2, 1 / 2], [1 / 2, 1 / 2, 1 / 2]],
               [[1 / 2, 1 / 2, 1 / 2], [1 / 2, 1 / 2, 1 / 2]]],
      action_context_reg = [[1, 1, 1], [1, 1, 1], [1, 1, 1]]\<rparr>"

definition example_self_full :: "nat dataset" where
  "example_self_full =
     example_self\<lparr>reward_type := ''continuous'', n_deficient_actions := 0\<rparr>"

definition example_self_irrelevant :: "nat dataset" where
  "example_self_irrelevant =
     \<lparr>n_actions = 3, dim_context = 1, reward_type = ''binary'',
      reward_function = Some example_reward, reward_std = 1,
      behavior_policy_function = None, beta = 0, n_cat_per_dim = 2,
      latent_param_mat_dim = 1, n_cat_dim = 2, p_e_a_param_std = 1,
      n_unobserved_cat_dim = 1, n_irrelevant_cat_dim = 2,
      n_deficient_actions = 0, random_state = 12345, dataset_name = ''example'',
      random_gen = 16,
      action_context = [[1, 0, 0], [0, 1, 0], [0, 0, 1]],
      latent_cat_param = [[[0], [0]], [[0], [0]]],
      p_e_a = [[[1 / 2, 1 / 2], [1 / 2, 1 / 2]],
               [[1 / 2, 1 / 2], [1 / 2, 1 / 2]],
               [[1 / 2, 1 / 2], [1 / 2, 1 / 2]]],
      action_context_reg = [[1, 1], [1, 1], [1, 1]]\<rparr>"

text \<open>The local variables of a batch of two rounds on each of these instances.\<close>

definition example_locals :: locals where
  "example_locals =
     \<lparr>n_rounds = 2, contexts = [[0], [0]],
      cat_dim_importance = [0, 1 / 2, 1 / 2],
      q_x_e = [[[1 / 2, 1 / 2, 1 / 2], [1 / 2, 1 / 2, 1 / 2]],
               [[1 / 2, 1 / 2, 1 / 2], [1 / 2, 1 / 2, 1 / 2]]],
      q_x_a = [[1 / 2, 1 / 2, 1 / 2], [1 / 2, 1 / 2, 1 / 2]],
      pi_b_logits = [[1 / 2, 1 / 2, 1 / 2], [1 / 2, 1 / 2, 1 / 2]],
      pi_b = [[0, 0, 1], [0, 0, 1]],
      actions = [2, 2],
      action_embed = [[1, 1, 1], [1, 1, 1]],
      expected_rewards_factual = [1 / 2, 1 / 2], rewards = [1, 1]\<rparr>"

definition example_locals_full :: locals where
  "example_locals_full =
     example_locals\<lparr>pi_b := [[1 / 3, 1 / 3, 1 / 3], [1 / 3, 1 / 3, 1 / 3]],
                    actions := [1, 1], rewards := [1 / 2, 1 / 2]\<rparr>"

definition example_locals_irrelevant :: locals where
  "example_locals_irrelevant =
     \<lparr>n_rounds = 2, contexts = [[0], [0]], cat_dim_importance = [0, 0],
      q_x_e = [[[1 / 2, 1 / 2], [1 / 2, 1 / 2]], [[1 / 2, 1 / 2], [1 / 2, 1 / 2]]],
      q_x_a = [[0, 0, 0], [0, 0, 0]],
      pi_b_logits = [[0, 0, 0], [0, 0, 0]],
      pi_b = [[1 / 3, 1 / 3, 1 / 3], [1 / 3, 1 / 3, 1 / 3]],
      actions = [1, 1],
      action_embed = [[1, 1], [1, 1]],
      expected_rewards_factual = [0, 0], rewards = [0, 0]\<rparr>"

text \<open>
  A behaviour-policy function whose logits are 2, 1 and 0 for the three actions in every
  round, and the first configuration with it, with one deficient action and
  \<open>beta = -1000\<close>.
\<close>

definition example_logits :: "mat \<Rightarrow> int list list \<Rightarrow> int \<Rightarrow> mat" where
  "example_logits ctx ac s = map (\<lambda>_. [2, 1, 0]) ctx"

definition example_config_underflow :: config where
  "example_config_underflow =
     example_config\<lparr>behavior_policy_function := Some example_logits, beta := - 1000,
                    n_deficient_actions := 1\<rparr>"

definition example_self_underflow :: "nat dataset" where
  "example_self_underflow =
     example_self\<lparr>behavior_policy_function := Some example_logits, beta := - 1000,
                  n_deficient_actions := 1\<rparr>"

text \<open>The local variables of a batch of one round on that instance, on float64.\<close>

definition example_locals_underflow :: locals where
  "example_locals_underflow =
     \<lparr>n_rounds = 1, contexts = [[0]],
      cat_dim_importance = [0, 1 / 2, 1 / 2],
      q_x_e = [[[1 / 2, 1 / 2, 1 / 2], [1 / 2, 1 / 2, 1 / 2]]],
      q_x_a = [[1 / 2, 1 / 2, 1 / 2]],
      pi_b_logits = [[2, 1, 0]],
      pi_b = [[0, 0, 1]],
      actions = [2],
      action_embed = [[1, 1, 1]],
      expected_rewards_factual = [1 / 2], rewards = [1]\<rparr>"

section \<open>Basic facts\<close>

lemma rbind_simps [simp]:
  "rbind (Inl e) f = Inl e"
  "rbind (Inr x) f = f x"
  by (simp_all add: rbind_def)

lemma rbind_eq_Inr: "rbind m f = Inr y \<longleftrightarrow> (\<exists>x. m = Inr x \<and> f x = Inr y)"
  by (cases m) simp_all

lemma length_draws_with: "length (fst (draws_with f ps g)) = length ps"
  by (induction ps arbitrary: g) (simp_all add: case_prod_beta)

lemma length_draws: "length (fst (draws f n g)) = n"
  by (simp add: draws_def length_draws_with)

lemma length_softmax [simp]: "length (softmax xs) = length xs"
  by (simp add: softmax_def)

lemma sum_exp_pos: "xs \<noteq> [] \<Longrightarrow> 0 < (\<Sum>y\<leftarrow>xs. exp (y::real))"
  by (cases xs) (auto intro!: add_pos_nonneg sum_list_nonneg)

lemma softmax_sum: "xs \<noteq> [] \<Longrightarrow> sum_list (softmax xs) = 1"
proof -
  assume ne: "xs \<noteq> []"
  have "sum_list (softmax xs) = (\<Sum>x\<leftarrow>xs. exp x * (1 / (\<Sum>y\<leftarrow>xs. exp y)))"
    by (simp add: softmax_def comp_def)
  also have "\<dots> = (\<Sum>x\<leftarrow>xs. exp x) * (1 / (\<Sum>y\<leftarrow>xs. exp y))"
    by (simp only: sum_list_mult_const)
  also have "\<dots> = 1"
    using sum_exp_pos [OF ne] by simp
  finally show ?thesis .
qed

lemma softmax_pos: "x \<in> set (softmax xs) \<Longrightarrow> 0 < x"
proof -
  assume "x \<in> set (softmax xs)"
  then obtain y where y: "y \<in> set xs" and x: "x = exp y / (\<Sum>z\<leftarrow>xs. exp z)"
    by (auto simp: softmax_def)
  from y have "xs \<noteq> []" by auto
  then show ?thesis using sum_exp_pos [of xs] x by simp
qed

lemma draws_with_all:
  "(\<And>p g. p \<in> set ps \<Longrightarrow> P (fst (f p g))) \<Longrightarrow> list_all P (fst (draws_with f ps g))"
  by (induction ps arbitrary: g) (simp_all add: case_prod_beta)

lemma draws_all: "(\<And>g. P (fst (f g))) \<Longrightarrow> list_all P (fst (draws f n g))"
  by (simp add: draws_def draws_with_all)

lemma draws_with_nth:
  "i < length ps \<Longrightarrow> \<exists>g'. fst (draws_with f ps g) ! i = fst (f (ps ! i) g')"
proof (induction ps arbitrary: g i)
  case Nil
  then show ?case by simp
next
  case (Cons p ps)
  show ?case
  proof (cases i)
    case 0
    then show ?thesis by (auto simp: case_prod_beta)
  next
    case (Suc j)
    with Cons.prems have "j < length ps" by simp
    from Cons.IH [OF this, of "snd (f p g)"] Suc show ?thesis
      by (auto simp: case_prod_beta)
  qed
qed

lemma is_mat_draws: "is_mat (fst (draws (draws f c) r g)) r c"
  unfolding is_mat_def by (simp add: length_draws draws_all)

lemma is_tensor_draws: "is_tensor (fst (draws (draws (draws f c) b) a g)) a b c"
  unfolding is_tensor_def by (simp add: length_draws draws_all is_mat_draws)

lemma is_mat_nth: "is_mat m r c \<Longrightarrow> i < r \<Longrightarrow> length (m ! i) = c"
  by (simp add: is_mat_def list_all_length)

lemma is_mat_length: "is_mat m r c \<Longrightarrow> length m = r"
  by (simp add: is_mat_def)

lemma is_tensor_nth: "is_tensor t a b c \<Longrightarrow> i < a \<Longrightarrow> is_mat (t ! i) b c"
  by (simp add: is_tensor_def list_all_length)

lemma is_tensor_length: "is_tensor t a b c \<Longrightarrow> length t = a"
  by (simp add: is_tensor_def)

lemma is_mat_map_upt: "(\<And>r. r < n \<Longrightarrow> length (f r) = c) \<Longrightarrow> is_mat (map f [0..<n]) n c"
  by (simp add: is_mat_def list_all_length)

lemma is_tensor_map_upt:
  "(\<And>r. r < n \<Longrightarrow> is_mat (f r) b c) \<Longrightarrow> is_tensor (map f [0..<n]) n b c"
  by (simp add: is_tensor_def list_all_length)

lemma for_each_length: "for_each f xs = Inr ys \<Longrightarrow> length ys = length xs"
  by (induction xs arbitrary: ys) (auto simp: rbind_eq_Inr)

lemma for_each_nth:
  "for_each f xs = Inr ys \<Longrightarrow> i < length xs \<Longrightarrow> f (xs ! i) = Inr (ys ! i)"
proof (induction xs arbitrary: ys i)
  case Nil
  then show ?case by simp
next
  case (Cons x xs)
  then obtain y ys' where y: "f x = Inr y" and ys': "for_each f xs = Inr ys'" and
    ys: "ys = y # ys'"
    by (auto simp: rbind_eq_Inr)
  show ?case
  proof (cases i)
    case 0
    then show ?thesis using y ys by simp
  next
    case (Suc j)
    then show ?thesis using Cons.IH [OF ys', of j] Cons.prems(2) ys by simp
  qed
qed

lemma for_each_Inr:
  "(\<And>x. x \<in> set xs \<Longrightarrow> \<exists>y. f x = Inr y) \<Longrightarrow> \<exists>ys. for_each f xs = Inr ys"
proof (induction xs)
  case Nil
  then show ?case by simp
next
  case (Cons x xs)
  then obtain y where "f x = Inr y" by auto
  moreover from Cons obtain ys where "for_each f xs = Inr ys" by auto
  ultimately show ?case by simp
qed

lemma sample_action_fast_length:
  "sample_action_fast ops pd seed = Inr acts \<Longrightarrow> length acts = length pd"
  by (auto simp: sample_action_fast_def rbind_eq_Inr length_draws)

lemma sample_action_fast_nth:
  "sample_action_fast ops pd seed = Inr acts \<Longrightarrow> r < length pd \<Longrightarrow>
   \<exists>g. acts ! r = sample_row (pd ! r) (fst (next_double ops g))"
proof -
  assume a: "sample_action_fast ops pd seed = Inr acts" and r: "r < length pd"
  then obtain g where acts:
    "acts = map2 sample_row pd (fst (draws (next_double ops) (length pd) g))"
    by (auto simp: sample_action_fast_def rbind_eq_Inr)
  have "\<exists>g'. fst (draws (next_double ops) (length pd) g) ! r = fst (next_double ops g')"
    using draws_with_nth [of r "replicate (length pd) ()" "\<lambda>_. next_double ops" g] r
    by (simp add: draws_def)
  then show ?thesis using acts r by (auto simp: length_draws)
qed

lemma argmax_bool_less: "bs \<noteq> [] \<Longrightarrow> argmax_bool bs < length bs"
proof -
  assume ne: "bs \<noteq> []"
  show ?thesis
  proof (cases "True \<in> set bs")
    case True
    then have "length (takeWhile (\<lambda>b. \<not> b) bs) < length bs"
      by (induction bs) auto
    then show ?thesis using True by (simp add: argmax_bool_def)
  next
    case False
    then show ?thesis using ne by (simp add: argmax_bool_def)
  qed
qed

lemma length_cumsum_from [simp]: "length (cumsum_from acc xs) = length xs"
  by (induction xs arbitrary: acc) simp_all

lemma sample_row_less: "row \<noteq> [] \<Longrightarrow> sample_row row u < length row"
proof -
  assume "row \<noteq> []"
  then have "map (\<lambda>c. u < c) (cumsum row) \<noteq> []"
    by (cases row) (simp_all add: cumsum_def)
  from argmax_bool_less [OF this] show ?thesis
    by (simp add: sample_row_def cumsum_def)
qed

subsection \<open>Scattered writes and sorting\<close>

lemma length_scatter [simp]: "length (scatter row idx vals) = length row"
  by (induction row idx vals rule: scatter.induct) simp_all

lemma scatter_nth_other: "j \<notin> set idx \<Longrightarrow> scatter row idx vals ! j = row ! j"
  by (induction row idx vals rule: scatter.induct) auto

lemma scatter_nth_written:
  "distinct idx \<Longrightarrow> length idx = length vals \<Longrightarrow> k < length idx \<Longrightarrow>
   idx ! k < length row \<Longrightarrow> scatter row idx vals ! (idx ! k) = vals ! k"
proof (induction row idx vals arbitrary: k rule: scatter.induct)
  case (1 row i idx v vals)
  show ?case
  proof (cases k)
    case 0
    then show ?thesis using "1.prems" by (simp add: scatter_nth_other)
  next
    case (Suc j)
    then show ?thesis using "1.prems" "1.IH" [of j] by simp
  qed
qed simp_all

lemma sum_list_update_real:
  "i < length xs \<Longrightarrow> sum_list (xs[i := v]) = sum_list xs - xs ! i + (v::real)"
proof (induction xs arbitrary: i)
  case Nil
  then show ?case by simp
next
  case (Cons x xs)
  then show ?case by (cases i) simp_all
qed

lemma sum_list_scatter:
  "distinct idx \<Longrightarrow> length idx = length vals \<Longrightarrow> \<forall>i \<in> set idx. i < length row \<Longrightarrow>
   sum_list (scatter row idx vals) = sum_list row - (\<Sum>i\<leftarrow>idx. row ! i) + sum_list (vals :: vec)"
proof (induction row idx vals rule: scatter.induct)
  case (1 row i idx v vals)
  have same: "(\<Sum>j\<leftarrow>idx. row[i := v] ! j) = (\<Sum>j\<leftarrow>idx. row ! j)"
  proof (intro arg_cong [where f = sum_list] map_cong refl)
    fix j assume "j \<in> set idx"
    with "1.prems"(1) have "i \<noteq> j" by auto
    then show "row[i := v] ! j = row ! j" by simp
  qed
  show ?case
    using "1.prems" "1.IH" by (simp add: same sum_list_update_real)
qed simp_all

lemma sum_list_scatter_zeros:
  assumes "distinct idx" "length idx = length vals" "\<forall>i \<in> set idx. i < n"
  shows "sum_list (scatter (replicate n 0) idx vals) = sum_list (vals :: vec)"
proof -
  have "(\<Sum>i\<leftarrow>idx. replicate n (0::real) ! i) = 0"
    using assms(3) by (induction idx) simp_all
  moreover have "sum_list (replicate n (0::real)) = 0"
    by (induction n) simp_all
  ultimately show ?thesis using sum_list_scatter [of idx vals "replicate n 0"] assms by simp
qed

lemma sum_list_nth_upt: "length xs = n \<Longrightarrow> (\<Sum>i\<leftarrow>[0..<n]. xs ! i) = sum_list (xs :: vec)"
  using map_nth [of xs] by (metis)

lemma length_argsort [simp]: "length (argsort xs) = length xs"
  by (simp add: argsort_def)

lemma set_argsort [simp]: "set (argsort xs) = {..<length xs}"
  by (auto simp: argsort_def)

lemma distinct_argsort [simp]: "distinct (argsort xs)"
  by (simp add: argsort_def)

lemma supported_actions_row:
  assumes "length row = A" "k \<le> A"
  shows "length (take k (rev (argsort row))) = k"
    and "distinct (take k (rev (argsort row)))"
    and "\<forall>i \<in> set (take k (rev (argsort row))). i < A"
proof -
  show "length (take k (rev (argsort row))) = k" using assms by simp
  show "distinct (take k (rev (argsort row)))" by (simp add: distinct_take)
  have "set (take k (rev (argsort row))) \<subseteq> set (rev (argsort row))" by (rule set_take_subset)
  then show "\<forall>i \<in> set (take k (rev (argsort row))). i < A" using assms by auto
qed

subsection \<open>The softmax along the category axis\<close>

lemma length_column [simp]: "length (column m d) = length m"
  by (simp add: column_def)

lemma softmax_axis1_nth:
  "is_tensor t A K D \<Longrightarrow> a < A \<Longrightarrow> k < K \<Longrightarrow> d < D \<Longrightarrow>
   softmax_axis1 D t ! a ! k ! d = softmax (column (t ! a) d) ! k"
  by (simp add: softmax_axis1_def is_tensor_def is_mat_def list_all_length)

lemma is_tensor_softmax_axis1: "is_tensor t A K D \<Longrightarrow> is_tensor (softmax_axis1 D t) A K D"
  by (simp add: softmax_axis1_def is_tensor_def is_mat_def list_all_length)

lemma softmax_axis1_sum:
  assumes t: "is_tensor t A K D" and a: "a < A" and d: "d < D" and K: "0 < K"
  shows "(\<Sum>k\<leftarrow>[0..<K]. softmax_axis1 D t ! a ! k ! d) = 1"
proof -
  have len: "length (t ! a) = K"
    using t a by (simp add: is_tensor_def is_mat_def list_all_length)
  have "(\<Sum>k\<leftarrow>[0..<K]. softmax_axis1 D t ! a ! k ! d) =
        (\<Sum>k\<leftarrow>[0..<K]. softmax (column (t ! a) d) ! k)"
    using t a d by (intro arg_cong [where f = sum_list] map_cong) (simp_all add: softmax_axis1_nth)
  also have "\<dots> = sum_list (softmax (column (t ! a) d))"
    by (rule sum_list_nth_upt) (simp add: len)
  also have "\<dots> = 1"
    using len K by (intro softmax_sum) (auto simp: column_def)
  finally show ?thesis .
qed

subsection \<open>What the constructor establishes\<close>

lemma check_scalar_Inr:
  "check_scalar x lo hi = Inr u \<longleftrightarrow>
     (case lo of None \<Rightarrow> True | Some l \<Rightarrow> l \<le> x) \<and> (case hi of None \<Rightarrow> True | Some h \<Rightarrow> x \<le> h)"
  by (auto simp: check_scalar_def split: option.splits)

lemma check_random_state_Inr:
  "check_random_state ops s = Inr g \<longleftrightarrow> 0 \<le> s \<and> s < 2 ^ 32 \<and> g = seed_rng ops s"
  by (auto simp: check_random_state_def)

lemma base_post_init_Inr:
  assumes "base_post_init ops c = Inr (g, ac)"
  shows "2 \<le> n_actions c" "1 \<le> dim_context c" "0 \<le> n_deficient_actions c"
    "n_deficient_actions c \<le> n_actions c - 1" "0 \<le> random_state c" "random_state c < 2 ^ 32"
    "\<exists>rt. RewardType_of (reward_type c) = Inr rt"
  using assms
  by (auto simp: base_post_init_def rbind_eq_Inr check_scalar_Inr check_random_state_Inr
      split: if_splits)

lemma define_action_embed_Inr:
  assumes "define_action_embed ops c g = Inr (latent, pea, reg, g')"
  shows "is_tensor latent (nat (n_cat_dim c)) (nat (n_cat_per_dim c)) (nat (latent_param_mat_dim c))"
    and "\<exists>logits. is_tensor logits (nat (n_actions c)) (nat (n_cat_per_dim c)) (nat (n_cat_dim c)) \<and>
           pea = softmax_axis1 (nat (n_cat_dim c)) logits"
    and "is_mat reg (nat (n_actions c)) (nat (n_cat_dim c))"
    and "\<forall>d < nat (n_cat_dim c). 0 \<le> random_state c + int d \<and> random_state c + int d < 2 ^ 32"
proof -
  obtain latent0 g1 where l0:
    "draws (draws (draws (next_normal ops 0 1) (nat (latent_param_mat_dim c)))
       (nat (n_cat_per_dim c))) (nat (n_cat_dim c)) g = (latent0, g1)"
    by (cases "draws (draws (draws (next_normal ops 0 1) (nat (latent_param_mat_dim c)))
       (nat (n_cat_per_dim c))) (nat (n_cat_dim c)) g") auto
  obtain logits g2 where l1:
    "draws (draws (draws (next_normal ops 0 (p_e_a_param_std c)) (nat (n_cat_dim c)))
       (nat (n_cat_per_dim c))) (nat (n_actions c)) g1 = (logits, g2)"
    by (cases "draws (draws (draws (next_normal ops 0 (p_e_a_param_std c)) (nat (n_cat_dim c)))
       (nat (n_cat_per_dim c))) (nat (n_actions c)) g1") auto
  from assms l0 l1 obtain cols where
    cols: "for_each (\<lambda>d. sample_action_fast ops
             (slice_dim (softmax_axis1 (nat (n_cat_dim c)) logits) d) (random_state c + int d))
             [0..<nat (n_cat_dim c)] = Inr cols"
    and eqs: "latent = latent0" "pea = softmax_axis1 (nat (n_cat_dim c)) logits"
      "reg = from_columns (nat (n_actions c)) cols" "g' = g2"
    by (auto simp: define_action_embed_def Let_def rbind_eq_Inr)
  from is_tensor_draws [of "next_normal ops 0 1" "nat (latent_param_mat_dim c)"
      "nat (n_cat_per_dim c)" "nat (n_cat_dim c)" g] l0 eqs
  show "is_tensor latent (nat (n_cat_dim c)) (nat (n_cat_per_dim c)) (nat (latent_param_mat_dim c))"
    by simp
  from is_tensor_draws [of "next_normal ops 0 (p_e_a_param_std c)" "nat (n_cat_dim c)"
      "nat (n_cat_per_dim c)" "nat (n_actions c)" g1] l1 eqs
  show "\<exists>logits. is_tensor logits (nat (n_actions c)) (nat (n_cat_per_dim c)) (nat (n_cat_dim c)) \<and>
           pea = softmax_axis1 (nat (n_cat_dim c)) logits"
    by auto
  have "length cols = nat (n_cat_dim c)"
    using for_each_length [OF cols] by simp
  then show "is_mat reg (nat (n_actions c)) (nat (n_cat_dim c))"
    using eqs by (simp add: from_columns_def is_mat_def list_all_length)
  show "\<forall>d < nat (n_cat_dim c). 0 \<le> random_state c + int d \<and> random_state c + int d < 2 ^ 32"
  proof (intro allI impI)
    fix d assume d: "d < nat (n_cat_dim c)"
    from for_each_nth [OF cols, of d] d
    have "\<exists>g. check_random_state ops (random_state c + int d) = Inr g"
      by (auto simp: sample_action_fast_def rbind_eq_Inr)
    then show "0 \<le> random_state c + int d \<and> random_state c + int d < 2 ^ 32"
      by (auto simp: check_random_state_Inr)
  qed
qed

lemma post_init_Inr:
  assumes "post_init ops dflt c = Inr self"
  shows "n_actions self = n_actions c" "dim_context self = dim_context c"
    "reward_type self = reward_type c" "reward_std self = reward_std c"
    "behavior_policy_function self = behavior_policy_function c" "beta self = beta c"
    "n_cat_per_dim self = n_cat_per_dim c" "latent_param_mat_dim self = latent_param_mat_dim c"
    "n_cat_dim self = n_cat_dim c + 1" "n_unobserved_cat_dim self = n_unobserved_cat_dim c + 1"
    "n_irrelevant_cat_dim self = n_irrelevant_cat_dim c + 1"
    "n_deficient_actions self = n_deficient_actions c" "random_state self = random_state c"
    "dataset_name self = dataset_name c"
    and "2 \<le> n_actions c" "1 \<le> dim_context c" "1 \<le> n_cat_per_dim c"
    "1 \<le> latent_param_mat_dim c" "1 \<le> n_cat_dim c" "0 \<le> p_e_a_param_std c"
    "0 \<le> n_unobserved_cat_dim c" "n_unobserved_cat_dim c \<le> n_cat_dim c"
    "0 \<le> n_irrelevant_cat_dim c" "n_irrelevant_cat_dim c \<le> n_cat_dim c"
    "0 \<le> n_deficient_actions c" "n_deficient_actions c \<le> n_actions c - 1"
    "0 \<le> random_state c" "random_state c + n_cat_dim c < 2 ^ 32"
    and "\<exists>rt. RewardType_of (reward_type c) = Inr rt"
    and "\<exists>f. reward_function self = Some f"
    and "is_tensor (latent_cat_param self) (nat (n_cat_dim c + 1)) (nat (n_cat_per_dim c))
           (nat (latent_param_mat_dim c))"
    and "\<exists>logits. is_tensor logits (nat (n_actions c)) (nat (n_cat_per_dim c)) (nat (n_cat_dim c + 1)) \<and>
           p_e_a self = softmax_axis1 (nat (n_cat_dim c + 1)) logits"
    and "is_mat (action_context_reg self) (nat (n_actions c)) (nat (n_cat_dim c + 1))"
proof -
  let ?c1 = "c\<lparr>n_cat_dim := n_cat_dim c + 1,
                 n_unobserved_cat_dim := n_unobserved_cat_dim c + 1,
                 n_irrelevant_cat_dim := n_irrelevant_cat_dim c + 1\<rparr>"
  from assms obtain g0 ac latent pea reg g1 rf where
    base: "base_post_init ops c = Inr (g0, ac)" and
    chk: "check_scalar (n_cat_per_dim c) (Some 1) None = Inr ()"
      "check_scalar (latent_param_mat_dim c) (Some 1) None = Inr ()"
      "check_scalar (n_cat_dim c) (Some 1) None = Inr ()"
      "check_scalar_real (p_e_a_param_std c) (Some 0) = Inr ()"
      "check_scalar (n_unobserved_cat_dim c) (Some 0) (Some (n_cat_dim c)) = Inr ()"
      "check_scalar (n_irrelevant_cat_dim c) (Some 0) (Some (n_cat_dim c)) = Inr ()" and
    dae: "define_action_embed ops ?c1 g0 = Inr (latent, pea, reg, g1)" and
    rf: "\<exists>f. rf = Some f" and
    self: "self = \<lparr>n_actions = n_actions c,
            dim_context = dim_context c,
            reward_type = reward_type c,
            reward_function = rf,
            reward_std = reward_std c,
            behavior_policy_function = behavior_policy_function c,
            beta = beta c,
            n_cat_per_dim = n_cat_per_dim c,
            latent_param_mat_dim = latent_param_mat_dim c,
            n_cat_dim = n_cat_dim c + 1,
            p_e_a_param_std = p_e_a_param_std c,
            n_unobserved_cat_dim = n_unobserved_cat_dim c + 1,
            n_irrelevant_cat_dim = n_irrelevant_cat_dim c + 1,
            n_deficient_actions = n_deficient_actions c,
            random_state = random_state c,
            dataset_name = dataset_name c,
            random_gen = g1,
            action_context = ac,
            latent_cat_param = latent,
            p_e_a = pea,
            action_context_reg = reg\<rparr>"
    by (auto simp: post_init_def rbind_eq_Inr split: prod.splits option.splits)
  show "n_actions self = n_actions c" "dim_context self = dim_context c"
    "reward_type self = reward_type c" "reward_std self = reward_std c"
    "behavior_policy_function self = behavior_policy_function c" "beta self = beta c"
    "n_cat_per_dim self = n_cat_per_dim c" "latent_param_mat_dim self = latent_param_mat_dim c"
    "n_cat_dim self = n_cat_dim c + 1" "n_unobserved_cat_dim self = n_unobserved_cat_dim c + 1"
    "n_irrelevant_cat_dim self = n_irrelevant_cat_dim c + 1"
    "n_deficient_actions self = n_deficient_actions c" "random_state self = random_state c"
    "dataset_name self = dataset_name c"
    by (simp_all add: self)
  show "2 \<le> n_actions c" "1 \<le> dim_context c" "0 \<le> n_deficient_actions c"
    "n_deficient_actions c \<le> n_actions c - 1" "0 \<le> random_state c"
    using base_post_init_Inr [OF base] by simp_all
  show "1 \<le> n_cat_per_dim c" "1 \<le> latent_param_mat_dim c" "1 \<le> n_cat_dim c"
    "0 \<le> n_unobserved_cat_dim c" "n_unobserved_cat_dim c \<le> n_cat_dim c"
    "0 \<le> n_irrelevant_cat_dim c" "n_irrelevant_cat_dim c \<le> n_cat_dim c"
    using chk by (simp_all add: check_scalar_Inr)
  then have D: "0 \<le> n_cat_dim c" by simp
  show "0 \<le> p_e_a_param_std c"
    using chk(4) by (simp add: check_scalar_real_def split: if_splits)
  show "\<exists>rt. RewardType_of (reward_type c) = Inr rt"
    using base_post_init_Inr(7) [OF base] .
  show "\<exists>f. reward_function self = Some f"
    using rf by (simp add: self)
  note facts = define_action_embed_Inr [OF dae]
  from facts(1) show "is_tensor (latent_cat_param self) (nat (n_cat_dim c + 1))
     (nat (n_cat_per_dim c)) (nat (latent_param_mat_dim c))"
    by (simp add: self)
  from facts(2) show "\<exists>logits. is_tensor logits (nat (n_actions c)) (nat (n_cat_per_dim c))
     (nat (n_cat_dim c + 1)) \<and> p_e_a self = softmax_axis1 (nat (n_cat_dim c + 1)) logits"
    by (simp add: self)
  from facts(3) show "is_mat (action_context_reg self) (nat (n_actions c)) (nat (n_cat_dim c + 1))"
    by (simp add: self)
  from facts(4) have "random_state c + int (nat (n_cat_dim c)) < 2 ^ 32"
    using D by (auto dest!: spec [where x = "nat (n_cat_dim c)"])
  then show "random_state c + n_cat_dim c < 2 ^ 32" using D by simp
qed

subsection \<open>The stages of batch generation\<close>

lemma obtain_batch_body_Inr:
  assumes "obtain_batch_body ops self v = (Inr l, g)"
  shows "\<exists>n g1 g2 g3.
     v = PInt n \<and> 1 \<le> n \<and> n_rounds l = n \<and>
     draws (draws (next_normal ops 0 1) (nat (dim_context self))) (nat n) (random_gen self) =
       (contexts l, g1) \<and>
     sample_cat_dim_importance ops self g1 = (Inr (cat_dim_importance l), g2) \<and>
     calc_q_x_e self (nat n) (contexts l) = Inr (q_x_e l) \<and>
     q_x_a l = calc_q_x_a self (nat n) (q_x_e l) (cat_dim_importance l) \<and>
     calc_pi_b_logits self (nat n) (contexts l) (q_x_a l) = Inr (pi_b_logits l) \<and>
     calc_pi_b ops self (nat n) (pi_b_logits l) g2 = (pi_b l, g3) \<and>
     sample_action_fast ops (pi_b l) (random_state self) = Inr (actions l) \<and>
     sample_action_embed ops self (nat n) (actions l) = Inr (action_embed l) \<and>
     expected_rewards_factual l =
       calc_expected_rewards_factual self (nat n) (cat_dim_importance l) (q_x_e l)
         (action_embed l) \<and>
     sample_rewards ops self (expected_rewards_factual l) g3 = (Inr (rewards l), g)"
  using assms unfolding obtain_batch_body_def check_scalar_pyint_def
  by (auto split: pyval.splits if_splits sum.splits prod.splits)

lemma obtain_batch_bandit_feedback_Inr:
  "obtain_batch_bandit_feedback ops self v = (Inr b, self') \<longleftrightarrow>
   (\<exists>l g. obtain_batch_body ops self v = (Inr l, g) \<and> b = feedback_of self l \<and>
          self' = self\<lparr>random_gen := g\<rparr>)"
  unfolding obtain_batch_bandit_feedback_def
  by (auto split: sum.splits prod.splits)

lemma obtain_batch_bandit_feedback_frame:
  "snd (obtain_batch_bandit_feedback ops self v) =
   self\<lparr>random_gen := random_gen (snd (obtain_batch_bandit_feedback ops self v))\<rparr>"
  unfolding obtain_batch_bandit_feedback_def
  by (auto split: sum.splits prod.splits)

lemma reachable_post_init:
  "reachable ops dflt c self \<Longrightarrow>
   \<exists>self0 g. post_init ops dflt c = Inr self0 \<and> self = self0\<lparr>random_gen := g\<rparr>"
proof (induction rule: reachable.induct)
  case (constructed self)
  then have "self = self\<lparr>random_gen := random_gen self\<rparr>" by simp
  with constructed show ?case by blast
next
  case (called self v)
  then obtain self0 g where s0: "post_init ops dflt c = Inr self0"
    and s: "self = self0\<lparr>random_gen := g\<rparr>" by blast
  have "snd (obtain_batch_bandit_feedback ops self v) =
    self0\<lparr>random_gen := random_gen (snd (obtain_batch_bandit_feedback ops self v))\<rparr>"
    using obtain_batch_bandit_feedback_frame [of ops self v] s by simp
  with s0 show ?case by blast
qed

lemma reachable_facts:
  assumes "reachable ops dflt c self"
  shows "n_actions self = n_actions c" "dim_context self = dim_context c"
    "reward_type self = reward_type c" "reward_std self = reward_std c"
    "behavior_policy_function self = behavior_policy_function c" "beta self = beta c"
    "n_cat_per_dim self = n_cat_per_dim c" "latent_param_mat_dim self = latent_param_mat_dim c"
    "n_cat_dim self = n_cat_dim c + 1" "n_unobserved_cat_dim self = n_unobserved_cat_dim c + 1"
    "n_irrelevant_cat_dim self = n_irrelevant_cat_dim c + 1"
    "n_deficient_actions self = n_deficient_actions c" "random_state self = random_state c"
    "dataset_name self = dataset_name c"
    and "2 \<le> n_actions c" "1 \<le> dim_context c" "1 \<le> n_cat_per_dim c"
    "1 \<le> latent_param_mat_dim c" "1 \<le> n_cat_dim c" "0 \<le> p_e_a_param_std c"
    "0 \<le> n_unobserved_cat_dim c" "n_unobserved_cat_dim c \<le> n_cat_dim c"
    "0 \<le> n_irrelevant_cat_dim c" "n_irrelevant_cat_dim c \<le> n_cat_dim c"
    "0 \<le> n_deficient_actions c" "n_deficient_actions c \<le> n_actions c - 1"
    "0 \<le> random_state c" "random_state c + n_cat_dim c < 2 ^ 32"
    and "\<exists>rt. RewardType_of (reward_type c) = Inr rt"
    and "\<exists>f. reward_function self = Some f"
    and "is_tensor (latent_cat_param self) (nat (n_cat_dim c + 1)) (nat (n_cat_per_dim c))
           (nat (latent_param_mat_dim c))"
    and "\<exists>logits. is_tensor logits (nat (n_actions c)) (nat (n_cat_per_dim c)) (nat (n_cat_dim c + 1)) \<and>
           p_e_a self = softmax_axis1 (nat (n_cat_dim c + 1)) logits"
    and "is_mat (action_context_reg self) (nat (n_actions c)) (nat (n_cat_dim c + 1))"
proof -
  from reachable_post_init [OF assms] obtain self0 g where
    s0: "post_init ops dflt c = Inr self0" and s: "self = self0\<lparr>random_gen := g\<rparr>"
    by blast
  note f = post_init_Inr [OF s0]
  show "n_actions self = n_actions c" "dim_context self = dim_context c"
    "reward_type self = reward_type c" "reward_std self = reward_std c"
    "behavior_policy_function self = behavior_policy_function c" "beta self = beta c"
    "n_cat_per_dim self = n_cat_per_dim c" "latent_param_mat_dim self = latent_param_mat_dim c"
    "n_cat_dim self = n_cat_dim c + 1" "n_unobserved_cat_dim self = n_unobserved_cat_dim c + 1"
    "n_irrelevant_cat_dim self = n_irrelevant_cat_dim c + 1"
    "n_deficient_actions self = n_deficient_actions c" "random_state self = random_state c"
    "dataset_name self = dataset_name c"
    using f(1-14) by (simp_all add: s)
  show "2 \<le> n_actions c" "1 \<le> dim_context c" "1 \<le> n_cat_per_dim c"
    "1 \<le> latent_param_mat_dim c" "1 \<le> n_cat_dim c" "0 \<le> p_e_a_param_std c"
    "0 \<le> n_unobserved_cat_dim c" "n_unobserved_cat_dim c \<le> n_cat_dim c"
    "0 \<le> n_irrelevant_cat_dim c" "n_irrelevant_cat_dim c \<le> n_cat_dim c"
    "0 \<le> n_deficient_actions c" "n_deficient_actions c \<le> n_actions c - 1"
    "0 \<le> random_state c" "random_state c + n_cat_dim c < 2 ^ 32"
    "\<exists>rt. RewardType_of (reward_type c) = Inr rt"
    by (rule f)+
  show "\<exists>f. reward_function self = Some f" using f(30) by (simp add: s)
  show "is_tensor (latent_cat_param self) (nat (n_cat_dim c + 1)) (nat (n_cat_per_dim c))
           (nat (latent_param_mat_dim c))" using f(31) by (simp add: s)
  show "\<exists>logits. is_tensor logits (nat (n_actions c)) (nat (n_cat_per_dim c)) (nat (n_cat_dim c + 1)) \<and>
           p_e_a self = softmax_axis1 (nat (n_cat_dim c + 1)) logits" using f(32) by (simp add: s)
  show "is_mat (action_context_reg self) (nat (n_actions c)) (nat (n_cat_dim c + 1))"
    using f(33) by (simp add: s)
qed

lemma reachable_p_e_a:
  assumes "reachable ops dflt c self"
  shows "is_tensor (p_e_a self) (nat (n_actions self)) (nat (n_cat_per_dim self))
           (nat (n_cat_dim self))"
  using reachable_facts(32) [OF assms] reachable_facts(1,7,9) [OF assms]
  by (auto intro: is_tensor_softmax_axis1)

subsection \<open>The concrete instances\<close>

lemmas construct_eval = post_init_def base_post_init_def check_scalar_def check_scalar_real_def
  check_random_state_def RewardType_of_def define_action_embed_def draws_def
  next_normal_def softmax_axis1_def softmax_def column_def slice_dim_def from_columns_def
  sample_action_fast_def sample_row_def cumsum_def argmax_bool_def example_ops_def
  example_config_def example_config_full_def example_config_irrelevant_def
  example_defaults_def Let_def

lemma example_post_init:
  "post_init example_ops example_defaults example_config = Inr example_self"
  by (simp add: construct_eval example_self_def numeral_2_eq_2 numeral_3_eq_3)

lemma example_post_init_full:
  "post_init example_ops example_defaults example_config_full = Inr example_self_full"
  by (simp add: construct_eval example_self_def example_self_full_def numeral_2_eq_2
      numeral_3_eq_3)

lemma example_post_init_irrelevant:
  "post_init example_ops example_defaults example_config_irrelevant =
   Inr example_self_irrelevant"
  by (simp add: construct_eval example_self_irrelevant_def numeral_2_eq_2 numeral_3_eq_3)

lemmas batch_eval = obtain_batch_body_def
  check_scalar_pyint_def sample_cat_dim_importance_def dirichlet_def binomial_def
  calc_q_x_e_def calc_q_x_a_def calc_pi_b_logits_def calc_pi_b_def supported_actions_def
  argsort_def sample_action_embed_def calc_expected_rewards_factual_def sample_rewards_def
  is_mat_def example_reward_def softmax_rows_def
  check_random_state_def RewardType_of_def draws_def
  next_normal_def softmax_def column_def from_columns_def
  sample_action_fast_def sample_row_def cumsum_def argmax_bool_def example_ops_def Let_def

lemma example_body:
  "obtain_batch_body example_ops example_self (PInt 2) = (Inr example_locals, 38)"
  by (simp add: batch_eval example_self_def example_locals_def numeral_2_eq_2 numeral_3_eq_3)

lemma example_body_full:
  "obtain_batch_body example_ops example_self_full (PInt 2) = (Inr example_locals_full, 32)"
  by (simp add: batch_eval example_self_def example_self_full_def example_locals_def
      example_locals_full_def numeral_2_eq_2 numeral_3_eq_3)

lemma example_body_irrelevant:
  "obtain_batch_body example_ops example_self_irrelevant (PInt 2) =
   (Inr example_locals_irrelevant, 20)"
  by (simp add: batch_eval example_self_irrelevant_def example_locals_irrelevant_def
      numeral_2_eq_2 numeral_3_eq_3)

lemma example_batch:
  "obtain_batch_bandit_feedback example_ops example_self (PInt 2) =
   (Inr (feedback_of example_self example_locals), example_self\<lparr>random_gen := 38\<rparr>)"
  by (simp add: obtain_batch_bandit_feedback_def example_body)

lemma example_batch_full:
  "obtain_batch_bandit_feedback example_ops example_self_full (PInt 2) =
   (Inr (feedback_of example_self_full example_locals_full),
    example_self_full\<lparr>random_gen := 32\<rparr>)"
  by (simp add: obtain_batch_bandit_feedback_def example_body_full)

lemma example_batch_irrelevant:
  "obtain_batch_bandit_feedback example_ops example_self_irrelevant (PInt 2) =
   (Inr (feedback_of example_self_irrelevant example_locals_irrelevant),
    example_self_irrelevant\<lparr>random_gen := 20\<rparr>)"
  by (simp add: obtain_batch_bandit_feedback_def example_body_irrelevant)

lemma example_reachable:
  "reachable example_ops example_defaults example_config example_self"
  by (rule reachable.constructed [OF example_post_init])

lemma example_reachable_full:
  "reachable example_ops example_defaults example_config_full example_self_full"
  by (rule reachable.constructed [OF example_post_init_full])

lemma example_reachable_irrelevant:
  "reachable example_ops example_defaults example_config_irrelevant example_self_irrelevant"
  by (rule reachable.constructed [OF example_post_init_irrelevant])

lemma example_rng_contract: "rng_contract example_ops"
  by (simp add: rng_contract_def example_ops_def)

section \<open>The embedding distribution\<close>

lemma softmax_column_nth:
  assumes "length m = K" "k < K"
  shows "softmax (column m d) ! k = exp (m ! k ! d) / (\<Sum>j\<leftarrow>[0..<K]. exp (m ! j ! d))"
proof -
  have "map (\<lambda>j. exp (m ! j ! d)) [0..<length m] = map (\<lambda>row. exp (row ! d)) m"
    by (rule nth_equalityI) simp_all
  then have "(\<Sum>j\<leftarrow>[0..<K]. exp (m ! j ! d)) = (\<Sum>y\<leftarrow>column m d. exp y)"
    using assms(1) by (simp add: column_def comp_def)
  then show ?thesis using assms by (simp add: softmax_def column_def)
qed

text \<open>
  C3. The embedding distribution \<open>p_e_a\<close> that the constructor builds has shape
  \<open>(n_actions, n_cat_per_dim, n_cat_dim)\<close> (with the reserved slot counted in \<open>n_cat_dim\<close>);
  it is the softmax along the category axis of a tensor of logits of that shape; and for
  every action and every dimension its entries over the categories sum to 1.
\<close>

theorem p_e_a_sums_to_one_over_categories:
  assumes "post_init ops dflt c = Inr self"
  shows "is_tensor (p_e_a self) (nat (n_actions self)) (nat (n_cat_per_dim self))
           (nat (n_cat_dim self)) \<and>
         (\<exists>logits. is_tensor logits (nat (n_actions self)) (nat (n_cat_per_dim self))
                     (nat (n_cat_dim self)) \<and>
            (\<forall>a < nat (n_actions self). \<forall>k < nat (n_cat_per_dim self).
               \<forall>d < nat (n_cat_dim self).
                 p_e_a self ! a ! k ! d =
                 exp (logits ! a ! k ! d) /
                 (\<Sum>j\<leftarrow>[0..<nat (n_cat_per_dim self)]. exp (logits ! a ! j ! d)))) \<and>
         (\<forall>a < nat (n_actions self). \<forall>d < nat (n_cat_dim self).
            (\<Sum>k\<leftarrow>[0..<nat (n_cat_per_dim self)]. p_e_a self ! a ! k ! d) = 1)"
proof -
  note f = post_init_Inr [OF assms]
  let ?A = "nat (n_actions self)" and ?K = "nat (n_cat_per_dim self)"
    and ?D = "nat (n_cat_dim self)"
  from f(32) f(1,7,9) obtain logits where
    t: "is_tensor logits ?A ?K ?D" and p: "p_e_a self = softmax_axis1 ?D logits"
    by auto
  have K: "0 < ?K" using f(7,17) by simp
  have shape: "is_tensor (p_e_a self) ?A ?K ?D"
    using t p by (simp add: is_tensor_softmax_axis1)
  have entries: "\<forall>a < ?A. \<forall>k < ?K. \<forall>d < ?D.
      p_e_a self ! a ! k ! d =
      exp (logits ! a ! k ! d) / (\<Sum>j\<leftarrow>[0..<?K]. exp (logits ! a ! j ! d))"
  proof (intro allI impI)
    fix a k d assume a: "a < ?A" and k: "k < ?K" and d: "d < ?D"
    have len: "length (logits ! a) = ?K"
      using is_tensor_nth [OF t a] by (simp add: is_mat_def)
    show "p_e_a self ! a ! k ! d =
      exp (logits ! a ! k ! d) / (\<Sum>j\<leftarrow>[0..<?K]. exp (logits ! a ! j ! d))"
      using softmax_axis1_nth [OF t a k d] softmax_column_nth [OF len k] p by simp
  qed
  have sums: "\<forall>a < ?A. \<forall>d < ?D. (\<Sum>k\<leftarrow>[0..<?K]. p_e_a self ! a ! k ! d) = 1"
    using softmax_axis1_sum [OF t _ _ K] p by simp
  from shape t entries sums show ?thesis by blast
qed

theorem p_e_a_sums_to_one_over_categories_witness:
  "post_init example_ops example_defaults example_config = Inr example_self \<and>
   (\<Sum>k\<leftarrow>[0..<2]. p_e_a example_self ! 0 ! k ! 0) = 1 \<and>
   (\<Sum>k\<leftarrow>[0..<2]. p_e_a example_self ! 2 ! k ! 1) = 1"
proof -
  have dims: "nat (n_actions example_self) = 3" "nat (n_cat_per_dim example_self) = 2"
    "nat (n_cat_dim example_self) = 3"
    by (simp_all add: example_self_def)
  have "\<forall>a < 3. \<forall>d < 3. (\<Sum>k\<leftarrow>[0..<2]. p_e_a example_self ! a ! k ! d) = 1"
    using p_e_a_sums_to_one_over_categories [OF example_post_init] unfolding dims by blast
  from this [rule_format, of 0 0] this [rule_format, of 2 1] example_post_init
  show ?thesis by simp
qed

section \<open>Facts about the stages\<close>

lemma sum_list_pos_real: "xs \<noteq> [] \<Longrightarrow> list_all (\<lambda>x. 0 < x) xs \<Longrightarrow> 0 < sum_list (xs :: vec)"
proof (cases xs)
  case Nil
  then show "xs \<noteq> [] \<Longrightarrow> ?thesis" by simp
next
  case (Cons a list)
  assume "list_all (\<lambda>x. 0 < x) xs"
  then have "0 < a" and "\<And>x. x \<in> set list \<Longrightarrow> 0 \<le> x"
    using Cons by (auto simp: list_all_iff intro: less_imp_le)
  then have "0 < a + sum_list list"
    by (intro add_pos_nonneg sum_list_nonneg)
  then show ?thesis using Cons by simp
qed

lemma sum_list_scaled: "(\<Sum>y\<leftarrow>ys. y * c) = sum_list ys * (c::real)"
  by (induction ys) (simp_all add: algebra_simps)

lemma dirichlet_Inr:
  assumes "dirichlet ops alpha g = (Inr w, g')"
  shows "length w = length alpha"
    and "rng_contract ops \<Longrightarrow> alpha \<noteq> [] \<Longrightarrow> sum_list w = 1"
    and "rng_contract ops \<Longrightarrow> list_all (\<lambda>x. 0 < x) w"
proof -
  let ?ys = "fst (draws_with (next_gamma ops) alpha g)"
  from assms have pos: "\<forall>a \<in> set alpha. 0 < a"
    and w: "w = map (\<lambda>y. y * (1 / sum_list ?ys)) ?ys"
    by (auto simp: dirichlet_def case_prod_beta split: if_splits)
  show "length w = length alpha" by (simp add: w length_draws_with)
  have ys_pos: "list_all (\<lambda>y. 0 < y) ?ys" if "rng_contract ops"
    using that pos by (intro draws_with_all) (simp add: rng_contract_def)
  have S: "0 < sum_list ?ys" if "rng_contract ops" "alpha \<noteq> []"
  proof -
    from that(2) have "?ys \<noteq> []" using length_draws_with [of "next_gamma ops" alpha g] by auto
    then show ?thesis using ys_pos [OF that(1)] by (rule sum_list_pos_real)
  qed
  show "sum_list w = 1" if "rng_contract ops" "alpha \<noteq> []"
  proof -
    have "sum_list w = sum_list ?ys * (1 / sum_list ?ys)"
      unfolding w by (rule sum_list_scaled)
    then show ?thesis using S [OF that] by simp
  qed
  show "list_all (\<lambda>x. 0 < x) w" if "rng_contract ops"
  proof (cases "alpha = []")
    case True
    then show ?thesis using \<open>length w = length alpha\<close> by simp
  next
    case False
    from S [OF that False] ys_pos [OF that] show ?thesis
      by (auto simp: w list_all_iff)
  qed
qed

lemma sample_cat_dim_importance_Inr:
  assumes "sample_cat_dim_importance ops self g = (Inr imp, g')"
    and irr: "0 \<le> n_irrelevant_cat_dim self" "n_irrelevant_cat_dim self \<le> n_cat_dim self"
  shows "length imp = nat (n_cat_dim self)"
    and "\<forall>d < nat (n_irrelevant_cat_dim self). imp ! d = 0"
    and "rng_contract ops \<Longrightarrow> n_irrelevant_cat_dim self < n_cat_dim self \<Longrightarrow>
         sum_list (drop (nat (n_irrelevant_cat_dim self)) imp) = 1"
    and "rng_contract ops \<Longrightarrow> list_all (\<lambda>x. 0 \<le> x) imp"
    and "n_irrelevant_cat_dim self = n_cat_dim self \<Longrightarrow> imp = replicate (nat (n_cat_dim self)) 0"
proof -
  let ?D = "nat (n_cat_dim self)" and ?I = "nat (n_irrelevant_cat_dim self)"
  let ?alpha = "fst (draws (next_double ops) (nat (n_cat_dim self - n_irrelevant_cat_dim self)) g)"
  from assms(1) obtain w g1 where
    d: "dirichlet ops ?alpha g1 = (Inr w, g')" and
    imp: "imp = take ?I (replicate ?D 0) @ w"
    by (auto simp: sample_cat_dim_importance_def split: sum.splits prod.splits)
  have lw: "length w = nat (n_cat_dim self - n_irrelevant_cat_dim self)"
    using dirichlet_Inr(1) [OF d] by (simp add: length_draws)
  have I: "?I \<le> ?D" using irr by simp
  then have "take ?I (replicate ?D (0::real)) = replicate ?I 0" by (simp add: min_def)
  with imp have imp': "imp = replicate ?I 0 @ w" by simp
  show "length imp = ?D" using irr lw by (simp add: imp')
  show "\<forall>d < ?I. imp ! d = 0" unfolding imp' by (simp add: nth_append)
  show "sum_list (drop ?I imp) = 1"
    if "rng_contract ops" "n_irrelevant_cat_dim self < n_cat_dim self"
  proof -
    have "?alpha \<noteq> []" using that(2) length_draws [of "next_double ops"
        "nat (n_cat_dim self - n_irrelevant_cat_dim self)" g]
      by auto
    from dirichlet_Inr(2) [OF d that(1) this] show ?thesis by (simp add: imp')
  qed
  show "list_all (\<lambda>x. 0 \<le> x) imp" if "rng_contract ops"
    using dirichlet_Inr(3) [OF d that] by (auto simp: imp' list_all_iff intro: less_imp_le)
  show "imp = replicate ?D 0" if "n_irrelevant_cat_dim self = n_cat_dim self"
    using lw that by (simp add: imp')
qed

lemma calc_q_x_e_Inr:
  assumes "calc_q_x_e self n ctx = Inr qe"
  shows "is_tensor qe n (nat (n_cat_per_dim self)) (nat (n_cat_dim self))"
proof -
  from assms obtain qs where
    qs: "length qs = nat (n_cat_dim self)" and
    qe: "qe = map (\<lambda>r. map (\<lambda>k. map (\<lambda>q. q ! r ! k) qs) [0..<nat (n_cat_per_dim self)]) [0..<n]"
    by (auto simp: calc_q_x_e_def rbind_eq_Inr split: option.splits dest: for_each_length)
  show ?thesis unfolding qe
    by (intro is_tensor_map_upt is_mat_map_upt) (simp add: qs)
qed

lemma is_mat_calc_q_x_a: "is_mat (calc_q_x_a self n qe imp) n (nat (n_actions self))"
  unfolding calc_q_x_a_def by (intro is_mat_map_upt) simp

lemma calc_pi_b_logits_Inr:
  assumes "calc_pi_b_logits self n ctx (calc_q_x_a self n qe imp) = Inr logits"
  shows "is_mat logits n (nat (n_actions self))"
    and "logits = (case behavior_policy_function self of
                     None \<Rightarrow> calc_q_x_a self n qe imp
                   | Some f \<Rightarrow> f ctx (action_context self) (random_state self))"
  using assms is_mat_calc_q_x_a [of self n qe imp]
  by (auto simp: calc_pi_b_logits_def Let_def split: option.splits if_splits)

lemma calc_pi_b_length:
  assumes "calc_pi_b ops self n logits g = (pb, g')" and "length logits = n"
  shows "length pb = n"
  using assms by (auto simp: calc_pi_b_def Let_def softmax_rows_def split: prod.splits if_splits)

lemma calc_pi_b_deficient:
  assumes pb: "calc_pi_b ops self n logits g = (pb, g')"
    and def: "0 < n_deficient_actions self" "n_deficient_actions self < n_actions self"
    and r: "r < n"
  shows "\<exists>sup. length sup = nat (n_actions self - n_deficient_actions self) \<and> distinct sup \<and>
           (\<forall>i \<in> set sup. i < nat (n_actions self)) \<and>
           pb ! r = scatter (replicate (nat (n_actions self)) 0) sup
                      (softmax (map (\<lambda>a. beta self * logits ! r ! a) sup))"
    and "length pb = n"
proof -
  let ?A = "nat (n_actions self)" and ?k = "nat (n_actions self - n_deficient_actions self)"
  let ?gum = "fst (draws (draws (next_gumbel ops) ?A) n g)"
  let ?sup = "supported_actions ?k ?gum"
  from pb def(1) have pbeq:
    "pb = map (\<lambda>r. scatter (replicate ?A 0) (?sup ! r)
                 (softmax (map (\<lambda>a. beta self * logits ! r ! a) (?sup ! r)))) [0..<n]"
    by (auto simp: calc_pi_b_def Let_def split: prod.splits)
  show "length pb = n" by (simp add: pbeq)
  have gm: "is_mat ?gum n ?A" by (rule is_mat_draws)
  then have len: "length (?gum ! r) = ?A" using r by (rule is_mat_nth)
  have k: "?k \<le> ?A" using def by simp
  have sup: "?sup ! r = take ?k (rev (argsort (?gum ! r)))"
    using r gm by (simp add: supported_actions_def is_mat_def)
  note s = supported_actions_row [OF len k]
  show "\<exists>sup. length sup = ?k \<and> distinct sup \<and> (\<forall>i \<in> set sup. i < ?A) \<and>
           pb ! r = scatter (replicate ?A 0) sup
                      (softmax (map (\<lambda>a. beta self * logits ! r ! a) sup))"
    using s r by (intro exI [of _ "?sup ! r"]) (simp add: pbeq sup)
qed

lemma calc_pi_b_ordinary:
  assumes pb: "calc_pi_b ops self n logits g = (pb, g')"
    and def: "\<not> 0 < n_deficient_actions self"
  shows "pb = map (\<lambda>row. softmax (map (\<lambda>x. beta self * x) row)) logits" and "g' = g"
  using assms by (auto simp: calc_pi_b_def softmax_rows_def)

lemma calc_pi_b_shape:
  assumes pb: "calc_pi_b ops self n logits g = (pb, g')"
    and lg: "is_mat logits n (nat (n_actions self))"
    and def: "n_deficient_actions self < n_actions self"
  shows "is_mat pb n (nat (n_actions self))"
proof (cases "0 < n_deficient_actions self")
  case True
  have "length (pb ! r) = nat (n_actions self)" if "r < n" for r
    using calc_pi_b_deficient(1) [OF pb True def that] by auto
  moreover have "length pb = n"
    using calc_pi_b_length [OF pb] lg by (simp add: is_mat_def)
  ultimately show ?thesis by (simp add: is_mat_def list_all_length)
next
  case False
  from calc_pi_b_ordinary(1) [OF pb False] lg show ?thesis
    by (simp add: is_mat_def list_all_length)
qed

lemma calc_pi_b_row_sum:
  assumes pb: "calc_pi_b ops self n logits g = (pb, g')"
    and lg: "is_mat logits n (nat (n_actions self))"
    and def: "n_deficient_actions self < n_actions self" "0 < n_actions self"
    and r: "r < n"
  shows "sum_list (pb ! r) = 1"
proof (cases "0 < n_deficient_actions self")
  case True
  from calc_pi_b_deficient(1) [OF pb True def(1) r] obtain sup where
    sup: "length sup = nat (n_actions self - n_deficient_actions self)" "distinct sup"
      "\<forall>i \<in> set sup. i < nat (n_actions self)" and
    row: "pb ! r = scatter (replicate (nat (n_actions self)) 0) sup
                      (softmax (map (\<lambda>a. beta self * logits ! r ! a) sup))"
    by blast
  from sup(1) def have ne: "map (\<lambda>a. beta self * logits ! r ! a) sup \<noteq> []" by auto
  have "sum_list (pb ! r) = sum_list (softmax (map (\<lambda>a. beta self * logits ! r ! a) sup))"
    unfolding row using sup by (intro sum_list_scatter_zeros) simp_all
  then show ?thesis using softmax_sum [OF ne] by simp
next
  case False
  have "length (logits ! r) = nat (n_actions self)" using lg r by (rule is_mat_nth)
  then have ne: "map (\<lambda>x. beta self * x) (logits ! r) \<noteq> []" using def(2) by auto
  have "pb ! r = softmax (map (\<lambda>x. beta self * x) (logits ! r))"
    using calc_pi_b_ordinary(1) [OF pb False] r lg by (simp add: is_mat_def)
  then show ?thesis using softmax_sum [OF ne] by simp
qed

section \<open>The behaviour policy\<close>

lemma reachable_pi_b:
  assumes reach: "reachable ops dflt c self"
    and body: "obtain_batch_body ops self v = (Inr l, g)"
  shows "is_mat (pi_b_logits l) (nat (n_rounds l)) (nat (n_actions self))"
    and "is_mat (pi_b l) (nat (n_rounds l)) (nat (n_actions self))"
    and "\<forall>r < nat (n_rounds l). sum_list (pi_b l ! r) = 1"
proof -
  note f = reachable_facts [OF reach]
  from obtain_batch_body_Inr [OF body] obtain n g2 g3 where
    n: "n_rounds l = n" and
    qa: "q_x_a l = calc_q_x_a self (nat n) (q_x_e l) (cat_dim_importance l)" and
    lg: "calc_pi_b_logits self (nat n) (contexts l) (q_x_a l) = Inr (pi_b_logits l)" and
    pb: "calc_pi_b ops self (nat n) (pi_b_logits l) g2 = (pi_b l, g3)"
    by blast
  have def: "n_deficient_actions self < n_actions self" "0 < n_actions self"
    using f(1,12,15,26) by simp_all
  show lgm: "is_mat (pi_b_logits l) (nat (n_rounds l)) (nat (n_actions self))"
    using calc_pi_b_logits_Inr(1) [OF lg [unfolded qa]] n by simp
  show "is_mat (pi_b l) (nat (n_rounds l)) (nat (n_actions self))"
    using calc_pi_b_shape [OF pb lgm [unfolded n] def(1)] n by simp
  show "\<forall>r < nat (n_rounds l). sum_list (pi_b l ! r) = 1"
    using calc_pi_b_row_sum [OF pb lgm [unfolded n] def] n by simp
qed

text \<open>
  C1. For every reachable instance and every call that returns, every round's
  behaviour-policy probabilities over the actions sum to 1, with or without deficient
  actions.
\<close>

theorem pi_b_rows_sum_to_one:
  assumes "reachable ops dflt c self"
    and "obtain_batch_bandit_feedback ops self v = (Inr b, self')"
  shows "length (fb_pi_b b) = nat (fb_n_rounds b) \<and>
         (\<forall>r < nat (fb_n_rounds b).
            (\<Sum>a\<leftarrow>[0..<nat (n_actions self)]. fb_pi_b b ! r ! a ! 0) = 1)"
proof -
  from assms(2) obtain l g where
    body: "obtain_batch_body ops self v = (Inr l, g)" and b: "b = feedback_of self l"
    by (auto simp: obtain_batch_bandit_feedback_Inr)
  note p = reachable_pi_b [OF assms(1) body]
  have n: "fb_n_rounds b = n_rounds l" by (simp add: b feedback_of_def)
  have len: "length (fb_pi_b b) = nat (fb_n_rounds b)"
    using p(2) by (simp add: b feedback_of_def is_mat_def)
  have "(\<Sum>a\<leftarrow>[0..<nat (n_actions self)]. fb_pi_b b ! r ! a ! 0) = 1"
    if r: "r < nat (fb_n_rounds b)" for r
  proof -
    have rl: "r < length (pi_b l)" using r n p(2) by (simp add: is_mat_def)
    have lr: "length (pi_b l ! r) = nat (n_actions self)"
      using is_mat_nth [OF p(2)] r n by simp
    have "(\<Sum>a\<leftarrow>[0..<nat (n_actions self)]. fb_pi_b b ! r ! a ! 0) =
          (\<Sum>a\<leftarrow>[0..<nat (n_actions self)]. pi_b l ! r ! a)"
      using rl lr by (intro arg_cong [where f = sum_list] map_cong)
        (simp_all add: b feedback_of_def)
    also have "\<dots> = sum_list (pi_b l ! r)" using lr by (rule sum_list_nth_upt)
    also have "\<dots> = 1" using p(3) r n by simp
    finally show ?thesis .
  qed
  with len show ?thesis by blast
qed

theorem pi_b_rows_sum_to_one_witness:
  "obtain_batch_bandit_feedback example_ops example_self (PInt 2) =
     (Inr (feedback_of example_self example_locals), example_self\<lparr>random_gen := 38\<rparr>) \<and>
   (\<Sum>a\<leftarrow>[0..<3]. fb_pi_b (feedback_of example_self example_locals) ! 0 ! a ! 0) = 1 \<and>
   obtain_batch_bandit_feedback example_ops example_self_full (PInt 2) =
     (Inr (feedback_of example_self_full example_locals_full),
      example_self_full\<lparr>random_gen := 32\<rparr>) \<and>
   (\<Sum>a\<leftarrow>[0..<3]. fb_pi_b (feedback_of example_self_full example_locals_full) ! 1 ! a ! 0) = 1"
proof -
  have d: "nat (fb_n_rounds (feedback_of example_self example_locals)) = 2"
    "nat (n_actions example_self) = 3"
    "nat (fb_n_rounds (feedback_of example_self_full example_locals_full)) = 2"
    "nat (n_actions example_self_full) = 3"
    by (simp_all add: feedback_of_def example_locals_def example_locals_full_def
        example_self_def example_self_full_def)
  have 1: "\<forall>r < 2. (\<Sum>a\<leftarrow>[0..<3].
      fb_pi_b (feedback_of example_self example_locals) ! r ! a ! 0) = 1"
    using pi_b_rows_sum_to_one [OF example_reachable example_batch] unfolding d by blast
  have 2: "\<forall>r < 2. (\<Sum>a\<leftarrow>[0..<3].
      fb_pi_b (feedback_of example_self_full example_locals_full) ! r ! a ! 0) = 1"
    using pi_b_rows_sum_to_one [OF example_reachable_full example_batch_full] unfolding d
    by blast
  from 1 [rule_format, of 0] 2 [rule_format, of 1] example_batch example_batch_full
  show ?thesis by simp
qed

lemma reachable_behavior_logits:
  assumes "obtain_batch_body ops self v = (Inr l, g)"
  shows "pi_b_logits l = behavior_logits self (feedback_of self l)"
proof -
  from obtain_batch_body_Inr [OF assms] obtain n where
    qa: "q_x_a l = calc_q_x_a self (nat n) (q_x_e l) (cat_dim_importance l)" and
    lg: "calc_pi_b_logits self (nat n) (contexts l) (q_x_a l) = Inr (pi_b_logits l)"
    by blast
  from calc_pi_b_logits_Inr(2) [OF lg [unfolded qa]] qa show ?thesis
    by (simp add: behavior_logits_def feedback_of_def split: option.splits)
qed

lemma scatter_zeros_support:
  fixes vals :: vec
  assumes "distinct sa" "length sa = length vals" "\<forall>i \<in> set sa. i < A"
    and "\<forall>x \<in> set vals. x \<noteq> 0"
  shows "{a. a < A \<and> scatter (replicate A 0) sa vals ! a \<noteq> 0} = set sa"
proof (intro set_eqI iffI)
  fix a assume "a \<in> {a. a < A \<and> scatter (replicate A 0) sa vals ! a \<noteq> 0}"
  then have a: "a < A" "scatter (replicate A 0) sa vals ! a \<noteq> 0" by auto
  show "a \<in> set sa"
  proof (rule ccontr)
    assume "a \<notin> set sa"
    then have "scatter (replicate A 0) sa vals ! a = replicate A (0::real) ! a"
      by (rule scatter_nth_other)
    with a show False by simp
  qed
next
  fix a assume "a \<in> set sa"
  then obtain i where i: "i < length sa" "sa ! i = a" by (auto simp: in_set_conv_nth)
  with assms(3) have aA: "a < A" by auto
  have "scatter (replicate A 0) sa vals ! (sa ! i) = vals ! i"
    using assms i aA by (intro scatter_nth_written) simp_all
  moreover have "vals ! i \<noteq> 0" using assms(2,4) i by simp
  ultimately show "a \<in> {a. a < A \<and> scatter (replicate A 0) sa vals ! a \<noteq> 0}"
    using i aA by simp
qed

subsection \<open>A single supported action\<close>

lemma cumsum_from_zeros:
  "cumsum_from acc (replicate j 0 @ xs) = replicate j acc @ cumsum_from acc xs"
  by (induction j) simp_all

lemma replicate_update:
  "j < A \<Longrightarrow> (replicate A x)[j := y] = replicate j x @ y # replicate (A - Suc j) x"
  by (auto simp: list_eq_iff_nth_eq nth_append nth_list_update nth_Cons split: nat.splits)

lemma sample_row_one_hot:
  assumes "j < A" "0 \<le> u" "u < 1"
  shows "sample_row ((replicate A 0)[j := 1]) u = j"
proof -
  have "map (\<lambda>c. u < c) (cumsum ((replicate A 0)[j := 1])) =
        replicate j False @ True # map (\<lambda>c. u < c) (cumsum_from 1 (replicate (A - Suc j) 0))"
    using assms by (simp add: cumsum_def replicate_update cumsum_from_zeros)
  then show ?thesis
    by (simp add: sample_row_def argmax_bool_def takeWhile_append split: if_splits)
qed

lemma softmax_single: "softmax [x] = [1]"
  by (simp add: softmax_def)

text \<open>
  C7. When all actions but one are deficient, every round has exactly one supported action:
  it has probability 1 and every other action has probability 0, the sampled action is
  that action, and the propensity score returned is 1 in every round.
\<close>

theorem single_supported_action:
  assumes "reachable ops dflt c self"
    and "obtain_batch_bandit_feedback ops self v = (Inr b, self')"
    and "n_deficient_actions self = n_actions self - 1"
    and "rng_contract ops"
  shows "length (fb_pscore b) = nat (fb_n_rounds b) \<and>
         (\<forall>r < nat (fb_n_rounds b).
            fb_action b ! r < nat (n_actions self) \<and>
            fb_pi_b b ! r ! (fb_action b ! r) = [1] \<and>
            (\<forall>a < nat (n_actions self). a \<noteq> fb_action b ! r \<longrightarrow> fb_pi_b b ! r ! a = [0]) \<and>
            fb_pscore b ! r = 1)"
proof -
  let ?A = "nat (n_actions self)"
  from assms(2) obtain l g where
    body: "obtain_batch_body ops self v = (Inr l, g)" and b: "b = feedback_of self l"
    by (auto simp: obtain_batch_bandit_feedback_Inr)
  note f = reachable_facts [OF assms(1)]
  note p = reachable_pi_b [OF assms(1) body]
  have n: "fb_n_rounds b = n_rounds l" by (simp add: b feedback_of_def)
  from obtain_batch_body_Inr [OF body] obtain g2 g3 where
    pb: "calc_pi_b ops self (nat (n_rounds l)) (pi_b_logits l) g2 = (pi_b l, g3)" and
    acts: "sample_action_fast ops (pi_b l) (random_state self) = Inr (actions l)"
    by blast
  have A2: "2 \<le> n_actions self" using f(1,15) by simp
  have def: "0 < n_deficient_actions self" "n_deficient_actions self < n_actions self"
    "nat (n_actions self - n_deficient_actions self) = 1"
    using A2 assms(3) by simp_all
  have len: "length (fb_pscore b) = nat (fb_n_rounds b)" by (simp add: b feedback_of_def)
  have "fb_action b ! r < ?A \<and> fb_pi_b b ! r ! (fb_action b ! r) = [1] \<and>
        (\<forall>a < ?A. a \<noteq> fb_action b ! r \<longrightarrow> fb_pi_b b ! r ! a = [0]) \<and> fb_pscore b ! r = 1"
    if r: "r < nat (fb_n_rounds b)" for r
  proof -
    have rl: "r < length (pi_b l)" using r n p(2) by (simp add: is_mat_def)
    from calc_pi_b_deficient(1) [OF pb def(1,2) r [unfolded n]] obtain sa where
      sa: "length sa = 1" "\<forall>i \<in> set sa. i < ?A" and
      row: "pi_b l ! r = scatter (replicate ?A 0) sa
              (softmax (map (\<lambda>a. beta self * pi_b_logits l ! r ! a) sa))"
      unfolding def(3) by blast
    from sa(1) obtain j where j: "sa = [j]" by (cases sa) auto
    with sa(2) have jA: "j < ?A" by simp
    have row1: "pi_b l ! r = (replicate ?A 0)[j := 1]"
      using row by (simp add: j softmax_single)
    from sample_action_fast_nth [OF acts rl] obtain g' where
      "actions l ! r = sample_row (pi_b l ! r) (fst (next_double ops g'))" by blast
    moreover have "0 \<le> fst (next_double ops g')" "fst (next_double ops g') < 1"
      using assms(4) by (simp_all add: rng_contract_def)
    ultimately have act: "actions l ! r = j"
      using sample_row_one_hot [OF jA] row1 by simp
    have fbp: "fb_pi_b b ! r ! a = [pi_b l ! r ! a]" if "a < ?A" for a
      using that rl row1 by (simp add: b feedback_of_def)
    have "fb_action b ! r = j" using act by (simp add: b feedback_of_def)
    moreover have "fb_pi_b b ! r ! j = [1]" using fbp [OF jA] jA by (simp add: row1)
    moreover have "\<forall>a < ?A. a \<noteq> j \<longrightarrow> fb_pi_b b ! r ! a = [0]"
      using fbp by (simp add: row1)
    moreover have "fb_pscore b ! r = 1"
      using r n act jA by (simp add: b feedback_of_def row1)
    ultimately show ?thesis using jA by simp
  qed
  with len show ?thesis by blast
qed

theorem single_supported_action_witness:
  "obtain_batch_bandit_feedback example_ops example_self (PInt 2) =
     (Inr (feedback_of example_self example_locals), example_self\<lparr>random_gen := 38\<rparr>) \<and>
   n_deficient_actions example_self = n_actions example_self - 1 \<and>
   rng_contract example_ops \<and>
   fb_pscore (feedback_of example_self example_locals) ! 0 = 1 \<and>
   fb_pscore (feedback_of example_self example_locals) ! 1 = 1 \<and>
   fb_pi_b (feedback_of example_self example_locals) !
     0 ! (fb_action (feedback_of example_self example_locals) ! 0) = [1]"
proof -
  have k: "n_deficient_actions example_self = n_actions example_self - 1"
    by (simp add: example_self_def)
  have d: "nat (fb_n_rounds (feedback_of example_self example_locals)) = 2"
    by (simp add: feedback_of_def example_locals_def)
  note t = single_supported_action [OF example_reachable example_batch k example_rng_contract,
      unfolded d, THEN conjunct2, rule_format]
  from t [of 0] t [of 1] example_batch k example_rng_contract show ?thesis by simp
qed

section \<open>The shapes of the output\<close>

lemma is_mat_map_drop: "is_mat m r c \<Longrightarrow> is_mat (map (drop k) m) r (c - k)"
  by (simp add: is_mat_def list_all_length)

lemma is_tensor_map_drop:
  "is_tensor t a b c \<Longrightarrow> is_tensor (map (map (drop k)) t) a b (c - k)"
  by (simp add: is_tensor_def is_mat_def list_all_length)

lemma sample_action_embed_Inr:
  assumes "sample_action_embed ops self n acts = Inr emb"
  shows "is_mat emb n (nat (n_cat_dim self))"
proof -
  from assms obtain cols where "length cols = nat (n_cat_dim self)"
    and "emb = from_columns n cols"
    by (auto simp: sample_action_embed_def rbind_eq_Inr dest: for_each_length)
  then show ?thesis by (simp add: from_columns_def is_mat_def list_all_length)
qed

lemma is_tensor_singletons: "is_mat m r c \<Longrightarrow> is_tensor (map (map (\<lambda>x. [x])) m) r c 1"
  by (simp add: is_tensor_def is_mat_def list_all_length)

text \<open>
  C6. Internally the dimension axis has one slot more than the user's \<open>n_cat_dim\<close>. The
  dictionary returned drops the first \<open>n_unobserved_cat_dim + 1\<close> slots (in the user's units)
  of the embeddings, of \<open>q_x_e\<close> and of \<open>p_e_a\<close>, so that each keeps
  \<open>n_cat_dim - n_unobserved_cat_dim\<close> slots; the action context drops only slot 0 and keeps
  \<open>n_cat_dim\<close> columns; and \<open>pi_b\<close> has shape \<open>(n_rounds, n_actions, 1)\<close>.
\<close>

theorem output_shapes:
  assumes "reachable ops dflt c self"
    and "obtain_batch_bandit_feedback ops self v = (Inr b, self')"
  shows "\<exists>l g. obtain_batch_body ops self v = (Inr l, g) \<and>
     is_mat (action_embed l) (nat (fb_n_rounds b)) (nat (n_cat_dim c) + 1) \<and>
     fb_action_embed b = map (drop (nat (n_unobserved_cat_dim c) + 1)) (action_embed l) \<and>
     is_mat (fb_action_embed b) (nat (fb_n_rounds b))
       (nat (n_cat_dim c - n_unobserved_cat_dim c)) \<and>
     is_tensor (q_x_e l) (nat (fb_n_rounds b)) (nat (n_cat_per_dim c)) (nat (n_cat_dim c) + 1) \<and>
     fb_q_x_e b = map (map (drop (nat (n_unobserved_cat_dim c) + 1))) (q_x_e l) \<and>
     is_tensor (fb_q_x_e b) (nat (fb_n_rounds b)) (nat (n_cat_per_dim c))
       (nat (n_cat_dim c - n_unobserved_cat_dim c)) \<and>
     is_tensor (p_e_a self) (nat (n_actions c)) (nat (n_cat_per_dim c)) (nat (n_cat_dim c) + 1) \<and>
     fb_p_e_a b = map (map (drop (nat (n_unobserved_cat_dim c) + 1))) (p_e_a self) \<and>
     is_tensor (fb_p_e_a b) (nat (n_actions c)) (nat (n_cat_per_dim c))
       (nat (n_cat_dim c - n_unobserved_cat_dim c)) \<and>
     is_mat (action_context_reg self) (nat (n_actions c)) (nat (n_cat_dim c) + 1) \<and>
     fb_action_context b = map (drop 1) (action_context_reg self) \<and>
     is_mat (fb_action_context b) (nat (n_actions c)) (nat (n_cat_dim c)) \<and>
     is_tensor (fb_pi_b b) (nat (fb_n_rounds b)) (nat (n_actions c)) 1"
proof -
  from assms(2) obtain l g where
    body: "obtain_batch_body ops self v = (Inr l, g)" and b: "b = feedback_of self l"
    by (auto simp: obtain_batch_bandit_feedback_Inr)
  note f = reachable_facts [OF assms(1)]
  note p = reachable_pi_b [OF assms(1) body]
  have n: "fb_n_rounds b = n_rounds l" by (simp add: b feedback_of_def)
  from obtain_batch_body_Inr [OF body] have
    qe: "calc_q_x_e self (nat (n_rounds l)) (contexts l) = Inr (q_x_e l)" and
    emb: "sample_action_embed ops self (nat (n_rounds l)) (actions l) = Inr (action_embed l)"
    by auto
  have D: "nat (n_cat_dim self) = nat (n_cat_dim c) + 1"
    and U: "nat (n_unobserved_cat_dim self) = nat (n_unobserved_cat_dim c) + 1"
    and DU: "nat (n_cat_dim c) + 1 - (nat (n_unobserved_cat_dim c) + 1) =
             nat (n_cat_dim c - n_unobserved_cat_dim c)"
    using f(9,10,19,21,22) by simp_all
  have e1: "is_mat (action_embed l) (nat (fb_n_rounds b)) (nat (n_cat_dim c) + 1)"
    using sample_action_embed_Inr [OF emb] by (simp add: n D)
  have e2: "fb_action_embed b = map (drop (nat (n_unobserved_cat_dim c) + 1)) (action_embed l)"
    by (simp add: b feedback_of_def U)
  have e3: "is_mat (fb_action_embed b) (nat (fb_n_rounds b))
       (nat (n_cat_dim c - n_unobserved_cat_dim c))"
    unfolding e2 using is_mat_map_drop [OF e1, of "nat (n_unobserved_cat_dim c) + 1"]
    by (simp only: DU)
  have q1: "is_tensor (q_x_e l) (nat (fb_n_rounds b)) (nat (n_cat_per_dim c))
       (nat (n_cat_dim c) + 1)"
    using calc_q_x_e_Inr [OF qe] by (simp add: n D f(7))
  have q2: "fb_q_x_e b = map (map (drop (nat (n_unobserved_cat_dim c) + 1))) (q_x_e l)"
    by (simp add: b feedback_of_def U)
  have q3: "is_tensor (fb_q_x_e b) (nat (fb_n_rounds b)) (nat (n_cat_per_dim c))
       (nat (n_cat_dim c - n_unobserved_cat_dim c))"
    unfolding q2 using is_tensor_map_drop [OF q1, of "nat (n_unobserved_cat_dim c) + 1"]
    by (simp only: DU)
  have p1: "is_tensor (p_e_a self) (nat (n_actions c)) (nat (n_cat_per_dim c))
       (nat (n_cat_dim c) + 1)"
    using reachable_p_e_a [OF assms(1)] by (simp add: D f(1,7))
  have p2: "fb_p_e_a b = map (map (drop (nat (n_unobserved_cat_dim c) + 1))) (p_e_a self)"
    by (simp add: b feedback_of_def U)
  have p3: "is_tensor (fb_p_e_a b) (nat (n_actions c)) (nat (n_cat_per_dim c))
       (nat (n_cat_dim c - n_unobserved_cat_dim c))"
    unfolding p2 using is_tensor_map_drop [OF p1, of "nat (n_unobserved_cat_dim c) + 1"]
    by (simp only: DU)
  have a1: "is_mat (action_context_reg self) (nat (n_actions c)) (nat (n_cat_dim c) + 1)"
    using f(33) f(19) by (simp add: nat_add_distrib)
  have a2: "fb_action_context b = map (drop 1) (action_context_reg self)"
    by (simp add: b feedback_of_def)
  have a3: "is_mat (fb_action_context b) (nat (n_actions c)) (nat (n_cat_dim c))"
    unfolding a2 using is_mat_map_drop [OF a1, of 1] by simp
  have pb: "is_tensor (fb_pi_b b) (nat (fb_n_rounds b)) (nat (n_actions c)) 1"
    using is_tensor_singletons [OF p(2)] by (simp add: b feedback_of_def f(1))
  show ?thesis
    by (rule exI [of _ l], rule exI [of _ g], intro conjI; fact)
qed

theorem output_shapes_witness:
  "obtain_batch_bandit_feedback example_ops example_self (PInt 2) =
     (Inr (feedback_of example_self example_locals), example_self\<lparr>random_gen := 38\<rparr>) \<and>
   is_mat (fb_action_embed (feedback_of example_self example_locals)) 2 1 \<and>
   is_tensor (fb_q_x_e (feedback_of example_self example_locals)) 2 2 1 \<and>
   is_tensor (fb_p_e_a (feedback_of example_self example_locals)) 3 2 1 \<and>
   is_mat (fb_action_context (feedback_of example_self example_locals)) 3 2 \<and>
   is_tensor (fb_pi_b (feedback_of example_self example_locals)) 2 3 1"
proof -
  have d: "nat (fb_n_rounds (feedback_of example_self example_locals)) = 2"
    "nat (n_cat_dim example_config) = 2"
    "nat (n_cat_dim example_config - n_unobserved_cat_dim example_config) = 1"
    "nat (n_actions example_config) = 3" "nat (n_cat_per_dim example_config) = 2"
    by (simp_all add: feedback_of_def example_locals_def example_config_def)
  from output_shapes [OF example_reachable example_batch, unfolded d] example_batch
  show ?thesis by blast
qed

section \<open>Validation and the frame of a call\<close>

lemma example_body_second:
  "obtain_batch_body example_ops (example_self\<lparr>random_gen := 38\<rparr>) (PInt 2) =
   (Inr example_locals, 52)"
  by (simp add: batch_eval example_self_def example_locals_def numeral_2_eq_2 numeral_3_eq_3)

lemma example_batch_second:
  "obtain_batch_bandit_feedback example_ops (example_self\<lparr>random_gen := 38\<rparr>) (PInt 2) =
   (Inr (feedback_of (example_self\<lparr>random_gen := 38\<rparr>) example_locals),
    example_self\<lparr>random_gen := 52\<rparr>)"
  by (simp add: obtain_batch_bandit_feedback_def example_body_second)

lemma obtain_batch_body_rejects:
  "(\<forall>n. v = PInt n \<longrightarrow> n < 1) \<Longrightarrow>
   obtain_batch_body ops self v =
     (Inl (case v of PInt n \<Rightarrow> ValueError | _ \<Rightarrow> TypeError), random_gen self)"
  by (cases v) (simp_all add: obtain_batch_body_def check_scalar_pyint_def)

text \<open>
  C5. A call changes nothing of the instance but the state of its generator, whether it
  returns or raises: the configuration fields, \<open>latent_cat_param\<close>, \<open>p_e_a\<close> and
  \<open>action_context_reg\<close> are as before. Two calls in a row that both return therefore return
  the same \<open>p_e_a\<close> and the same \<open>action_context\<close>.
\<close>

theorem calls_change_only_the_generator:
  assumes "obtain_batch_bandit_feedback ops self v1 = (res1, self1)"
    and "obtain_batch_bandit_feedback ops self1 v2 = (res2, self2)"
  shows "self1 = self\<lparr>random_gen := random_gen self1\<rparr> \<and>
         self2 = self\<lparr>random_gen := random_gen self2\<rparr> \<and>
         latent_cat_param self1 = latent_cat_param self \<and> p_e_a self1 = p_e_a self \<and>
         action_context_reg self1 = action_context_reg self \<and>
         (\<forall>b1 b2. res1 = Inr b1 \<longrightarrow> res2 = Inr b2 \<longrightarrow>
            fb_p_e_a b1 = fb_p_e_a b2 \<and> fb_action_context b1 = fb_action_context b2)"
proof -
  have s1: "self1 = self\<lparr>random_gen := random_gen self1\<rparr>"
    using obtain_batch_bandit_feedback_frame [of ops self v1] assms(1) by simp
  have "self2 = self1\<lparr>random_gen := random_gen self2\<rparr>"
    using obtain_batch_bandit_feedback_frame [of ops self1 v2] assms(2) by simp
  with s1 have s2: "self2 = self\<lparr>random_gen := random_gen self2\<rparr>"
    by (metis dataset.update_convs(1) dataset.surjective)
  have eqs: "latent_cat_param self1 = latent_cat_param self" "p_e_a self1 = p_e_a self"
    "action_context_reg self1 = action_context_reg self"
    "n_unobserved_cat_dim self1 = n_unobserved_cat_dim self"
    by (subst s1, simp)+
  have "fb_p_e_a b1 = fb_p_e_a b2 \<and> fb_action_context b1 = fb_action_context b2"
    if "res1 = Inr b1" "res2 = Inr b2" for b1 b2
  proof -
    from assms that obtain l1 l2 where "b1 = feedback_of self l1" "b2 = feedback_of self1 l2"
      by (auto simp: obtain_batch_bandit_feedback_Inr)
    then show ?thesis by (simp add: feedback_of_def eqs)
  qed
  with s1 s2 eqs show ?thesis by blast
qed

theorem calls_change_only_the_generator_witness:
  "obtain_batch_bandit_feedback example_ops example_self (PInt 2) =
     (Inr (feedback_of example_self example_locals), example_self\<lparr>random_gen := 38\<rparr>) \<and>
   obtain_batch_bandit_feedback example_ops (example_self\<lparr>random_gen := 38\<rparr>) (PInt 2) =
     (Inr (feedback_of (example_self\<lparr>random_gen := 38\<rparr>) example_locals),
      example_self\<lparr>random_gen := 52\<rparr>) \<and>
   p_e_a (example_self\<lparr>random_gen := 38\<rparr>) = p_e_a example_self \<and>
   fb_p_e_a (feedback_of example_self example_locals) =
     fb_p_e_a (feedback_of (example_self\<lparr>random_gen := 38\<rparr>) example_locals) \<and>
   fb_action_context (feedback_of example_self example_locals) =
     fb_action_context (feedback_of (example_self\<lparr>random_gen := 38\<rparr>) example_locals)"
  using calls_change_only_the_generator [OF example_batch example_batch_second]
    example_batch example_batch_second
  by simp

section \<open>The realised rewards\<close>

lemma sample_rewards_Inr:
  assumes "sample_rewards ops self erf g3 = (Inr rw, g)"
  shows "reward_type self = ''binary'' \<or> reward_type self = ''continuous''"
    and "reward_type self = ''binary'' \<Longrightarrow>
         (\<forall>p \<in> set erf. 0 \<le> p \<and> p \<le> 1) \<and>
         rw = map real (fst (draws_with (next_binomial ops 1) erf g3))"
    and "reward_type self = ''continuous'' \<Longrightarrow>
         rw = fst (draws_with (\<lambda>loc. next_normal ops loc (reward_std self)) erf g3)"
  using assms
  by (auto simp: sample_rewards_def RewardType_of_def binomial_def
      split: if_splits prod.splits sum.splits RewardType.splits)

text \<open>
  C8. With binary rewards, the expected rewards of the sampled embeddings are the
  probabilities of a binomial draw with one trial per round, and every reward is 0 or 1.
  With continuous rewards, the rewards are normal draws located at the expected rewards
  with scale \<open>reward_std\<close>: each is its expected reward plus \<open>reward_std\<close> times a standard
  normal draw.
\<close>

theorem rewards_are_binomial_or_normal_draws:
  assumes "obtain_batch_bandit_feedback ops self v = (Inr b, self')"
    and "rng_contract ops"
  shows "\<exists>l g g3. obtain_batch_body ops self v = (Inr l, g) \<and> b = feedback_of self l \<and>
     expected_rewards_factual l =
       calc_expected_rewards_factual self (nat (fb_n_rounds b)) (cat_dim_importance l)
         (q_x_e l) (action_embed l) \<and>
     length (fb_reward b) = nat (fb_n_rounds b) \<and>
     (reward_type self = ''binary'' \<or> reward_type self = ''continuous'') \<and>
     (reward_type self = ''binary'' \<longrightarrow>
        fb_reward b =
          map real (fst (draws_with (next_binomial ops 1) (expected_rewards_factual l) g3)) \<and>
        (\<forall>p \<in> set (expected_rewards_factual l). 0 \<le> p \<and> p \<le> 1) \<and>
        (\<forall>x \<in> set (fb_reward b). x = 0 \<or> x = 1)) \<and>
     (reward_type self = ''continuous'' \<longrightarrow>
        fb_reward b =
          fst (draws_with (\<lambda>loc. next_normal ops loc (reward_std self))
                 (expected_rewards_factual l) g3) \<and>
        (\<forall>r < nat (fb_n_rounds b). \<exists>g'.
           fb_reward b ! r =
             expected_rewards_factual l ! r + reward_std self * fst (next_gauss ops g')))"
proof -
  from assms(1) obtain l g where
    body: "obtain_batch_body ops self v = (Inr l, g)" and b: "b = feedback_of self l"
    by (auto simp: obtain_batch_bandit_feedback_Inr)
  let ?n = "nat (fb_n_rounds b)" and ?erf = "expected_rewards_factual l"
  have n: "fb_n_rounds b = n_rounds l" and rw: "fb_reward b = rewards l"
    by (simp_all add: b feedback_of_def)
  from obtain_batch_body_Inr [OF body] obtain g3 where
    erf: "?erf = calc_expected_rewards_factual self ?n (cat_dim_importance l) (q_x_e l)
            (action_embed l)" and
    sr: "sample_rewards ops self ?erf g3 = (Inr (rewards l), g)"
    unfolding n by auto
  note s = sample_rewards_Inr [OF sr]
  have le: "length ?erf = ?n" by (subst erf) (simp add: calc_expected_rewards_factual_def)
  have len: "length (fb_reward b) = ?n"
    using s le by (auto simp: rw length_draws_with)
  have bin: "fb_reward b = map real (fst (draws_with (next_binomial ops 1) ?erf g3)) \<and>
        (\<forall>p \<in> set ?erf. 0 \<le> p \<and> p \<le> 1) \<and> (\<forall>x \<in> set (fb_reward b). x = 0 \<or> x = 1)"
    if t: "reward_type self = ''binary''"
  proof -
    have "list_all (\<lambda>k. k \<le> 1) (fst (draws_with (next_binomial ops 1) ?erf g3))"
      using assms(2) by (intro draws_with_all) (simp add: rng_contract_def)
    then have "\<forall>x \<in> set (map real (fst (draws_with (next_binomial ops 1) ?erf g3))).
        x = 0 \<or> x = 1"
      by (auto simp: list_all_iff le_Suc_eq)
    with s(2) [OF t] show ?thesis by (simp add: rw)
  qed
  have cont: "fb_reward b = fst (draws_with (\<lambda>loc. next_normal ops loc (reward_std self))
                 ?erf g3) \<and>
        (\<forall>r < ?n. \<exists>g'. fb_reward b ! r = ?erf ! r + reward_std self * fst (next_gauss ops g'))"
    if t: "reward_type self = ''continuous''"
  proof -
    have eq: "fb_reward b = fst (draws_with (\<lambda>loc. next_normal ops loc (reward_std self))
        ?erf g3)"
      using s(3) [OF t] by (simp add: rw)
    have "\<exists>g'. fb_reward b ! r = ?erf ! r + reward_std self * fst (next_gauss ops g')"
      if "r < ?n" for r
    proof -
      from that le have "r < length ?erf" by simp
      from draws_with_nth [OF this, of "\<lambda>loc. next_normal ops loc (reward_std self)" g3]
      obtain g' where "fb_reward b ! r = fst (next_normal ops (?erf ! r) (reward_std self) g')"
        unfolding eq by blast
      then show ?thesis by (auto simp: next_normal_def case_prod_beta)
    qed
    with eq show ?thesis by blast
  qed
  note ty = s(1)
  show ?thesis
    by (rule exI [of _ l], rule exI [of _ g], rule exI [of _ g3])
      (use body b erf len ty bin cont in blast)
qed

theorem rewards_are_binomial_or_normal_draws_witness:
  "obtain_batch_bandit_feedback example_ops example_self (PInt 2) =
     (Inr (feedback_of example_self example_locals), example_self\<lparr>random_gen := 38\<rparr>) \<and>
   rng_contract example_ops \<and>
   reward_type example_self = ''binary'' \<and>
   fb_reward (feedback_of example_self example_locals) = [1, 1] \<and>
   length (fb_reward (feedback_of example_self example_locals)) = 2 \<and>
   obtain_batch_bandit_feedback example_ops example_self_full (PInt 2) =
     (Inr (feedback_of example_self_full example_locals_full),
      example_self_full\<lparr>random_gen := 32\<rparr>) \<and>
   reward_type example_self_full = ''continuous'' \<and>
   fb_reward (feedback_of example_self_full example_locals_full) = [1 / 2, 1 / 2] \<and>
   length (fb_reward (feedback_of example_self_full example_locals_full)) = 2"
proof -
  have d: "nat (fb_n_rounds (feedback_of example_self example_locals)) = 2"
    "nat (fb_n_rounds (feedback_of example_self_full example_locals_full)) = 2"
    by (simp_all add: feedback_of_def example_locals_def example_locals_full_def)
  from rewards_are_binomial_or_normal_draws [OF example_batch example_rng_contract, unfolded d]
  have 1: "length (fb_reward (feedback_of example_self example_locals)) = 2" by blast
  from rewards_are_binomial_or_normal_draws [OF example_batch_full example_rng_contract,
      unfolded d]
  have 2: "length (fb_reward (feedback_of example_self_full example_locals_full)) = 2" by blast
  from 1 2 example_batch example_batch_full example_rng_contract show ?thesis
    by (simp add: example_self_def example_self_full_def feedback_of_def example_locals_def
        example_locals_full_def)
qed

section \<open>The importance of the dimensions\<close>

lemma sum_list_upt_drop_first:
  fixes f :: "nat \<Rightarrow> real"
  assumes "0 < D" "f 0 = 0"
  shows "(\<Sum>d\<leftarrow>[0..<D]. f d) = (\<Sum>d\<leftarrow>[1..<D]. f d)"
  using assms by (simp add: upt_conv_Cons)

lemma reachable_importance:
  assumes reach: "reachable ops dflt c self"
    and body: "obtain_batch_body ops self v = (Inr l, g)"
  shows "length (cat_dim_importance l) = nat (n_cat_dim c) + 1"
    and "\<forall>d \<le> nat (n_irrelevant_cat_dim c). cat_dim_importance l ! d = 0"
    and "rng_contract ops \<Longrightarrow> n_irrelevant_cat_dim c < n_cat_dim c \<Longrightarrow>
         sum_list (drop (nat (n_irrelevant_cat_dim c) + 1) (cat_dim_importance l)) = 1"
    and "rng_contract ops \<Longrightarrow> list_all (\<lambda>w. 0 \<le> w) (cat_dim_importance l)"
    and "n_irrelevant_cat_dim c = n_cat_dim c \<Longrightarrow>
         cat_dim_importance l = replicate (nat (n_cat_dim c) + 1) 0"
proof -
  note f = reachable_facts [OF reach]
  from obtain_batch_body_Inr [OF body] obtain g1 g2 where
    imp: "sample_cat_dim_importance ops self g1 = (Inr (cat_dim_importance l), g2)"
    by blast
  have irr: "0 \<le> n_irrelevant_cat_dim self" "n_irrelevant_cat_dim self \<le> n_cat_dim self"
    using f(9,11,23,24) by simp_all
  have D: "nat (n_cat_dim self) = nat (n_cat_dim c) + 1"
    and I: "nat (n_irrelevant_cat_dim self) = nat (n_irrelevant_cat_dim c) + 1"
    using f(9,11,19,23) by simp_all
  note s = sample_cat_dim_importance_Inr [OF imp irr]
  show "length (cat_dim_importance l) = nat (n_cat_dim c) + 1" using s(1) D by simp
  show "\<forall>d \<le> nat (n_irrelevant_cat_dim c). cat_dim_importance l ! d = 0"
    using s(2) I by simp
  show "sum_list (drop (nat (n_irrelevant_cat_dim c) + 1) (cat_dim_importance l)) = 1"
    if "rng_contract ops" "n_irrelevant_cat_dim c < n_cat_dim c"
    using s(3) [OF that(1)] that(2) f(9,11) I by simp
  show "list_all (\<lambda>w. 0 \<le> w) (cat_dim_importance l)" if "rng_contract ops"
    using s(4) [OF that] .
  show "cat_dim_importance l = replicate (nat (n_cat_dim c) + 1) 0"
    if "n_irrelevant_cat_dim c = n_cat_dim c"
    using s(5) that f(9,11) D by simp
qed

lemma sum_list_zero_prefix:
  fixes xs :: vec
  assumes "\<forall>d < k. xs ! d = 0" "k \<le> length xs"
  shows "sum_list xs = sum_list (drop k xs)"
proof -
  have "take k xs = replicate k 0"
    using assms by (simp add: list_eq_iff_nth_eq)
  then have "sum_list (take k xs) = 0" by (simp add: sum_list_replicate)
  moreover have "sum_list xs = sum_list (take k xs) + sum_list (drop k xs)"
    by (metis append_take_drop_id sum_list_append)
  ultimately show ?thesis by simp
qed

text \<open>
  C10, as amended. In every call that returns, the weight of the reserved slot 0 of the
  dimension axis is 0, so slot 0 of \<open>q_x_e\<close> adds nothing to the expected reward of any
  action nor to the factual expected reward of any round: both are sums over the slots
  from 1 on. The weights are not negative. When at least one dimension is relevant
  (\<open>n_irrelevant_cat_dim < n_cat_dim\<close> in the configuration) the weights of the relevant
  dimensions sum to 1, and so do all the weights. When every dimension is irrelevant, which
  the validation allows, every weight is 0.
\<close>

theorem padding_slot_has_no_weight:
  assumes "reachable ops dflt c self"
    and "obtain_batch_bandit_feedback ops self v = (Inr b, self')"
    and "rng_contract ops"
  shows "\<exists>l g. obtain_batch_body ops self v = (Inr l, g) \<and> b = feedback_of self l \<and>
     cat_dim_importance l ! 0 = 0 \<and>
     (\<forall>r < nat (fb_n_rounds b). \<forall>a < nat (n_actions c).
        fb_expected_reward b ! r ! a =
        (\<Sum>d\<leftarrow>[1..<nat (n_cat_dim c) + 1].
           (\<Sum>k\<leftarrow>[0..<nat (n_cat_per_dim c)]. q_x_e l ! r ! k ! d * p_e_a self ! a ! k ! d) *
           cat_dim_importance l ! d)) \<and>
     (\<forall>r < nat (fb_n_rounds b).
        expected_rewards_factual l ! r =
        (\<Sum>d\<leftarrow>[1..<nat (n_cat_dim c) + 1].
           cat_dim_importance l ! d * q_x_e l ! r ! (action_embed l ! r ! d) ! d)) \<and>
     list_all (\<lambda>w. 0 \<le> w) (cat_dim_importance l) \<and>
     (n_irrelevant_cat_dim c < n_cat_dim c \<longrightarrow>
        sum_list (drop (nat (n_irrelevant_cat_dim c) + 1) (cat_dim_importance l)) = 1 \<and>
        sum_list (cat_dim_importance l) = 1) \<and>
     (n_irrelevant_cat_dim c = n_cat_dim c \<longrightarrow>
        cat_dim_importance l = replicate (nat (n_cat_dim c) + 1) 0)"
proof -
  from assms(2) obtain l g where
    body: "obtain_batch_body ops self v = (Inr l, g)" and b: "b = feedback_of self l"
    by (auto simp: obtain_batch_bandit_feedback_Inr)
  note f = reachable_facts [OF assms(1)]
  note i = reachable_importance [OF assms(1) body]
  let ?n = "nat (fb_n_rounds b)" and ?imp = "cat_dim_importance l"
  have n: "fb_n_rounds b = n_rounds l" by (simp add: b feedback_of_def)
  from obtain_batch_body_Inr [OF body] have
    qa: "q_x_a l = calc_q_x_a self (nat (n_rounds l)) (q_x_e l) (cat_dim_importance l)" and
    erf: "expected_rewards_factual l =
            calc_expected_rewards_factual self (nat (n_rounds l)) (cat_dim_importance l)
              (q_x_e l) (action_embed l)"
    by auto
  have fe: "fb_expected_reward b = q_x_a l" by (simp add: b feedback_of_def)
  have D: "nat (n_cat_dim self) = nat (n_cat_dim c) + 1" using f(9,19) by simp
  have z: "?imp ! 0 = 0" using i(2) by simp
  have ea: "\<forall>r < ?n. \<forall>a < nat (n_actions c).
        fb_expected_reward b ! r ! a =
        (\<Sum>d\<leftarrow>[1..<nat (n_cat_dim c) + 1].
           (\<Sum>k\<leftarrow>[0..<nat (n_cat_per_dim c)]. q_x_e l ! r ! k ! d * p_e_a self ! a ! k ! d) *
           ?imp ! d)"
  proof (intro allI impI)
    fix r a assume r: "r < ?n" and a: "a < nat (n_actions c)"
    have "fb_expected_reward b ! r ! a =
        (\<Sum>d\<leftarrow>[0..<nat (n_cat_dim c) + 1].
           (\<Sum>k\<leftarrow>[0..<nat (n_cat_per_dim c)]. q_x_e l ! r ! k ! d * p_e_a self ! a ! k ! d) *
           ?imp ! d)"
      using r a unfolding fe n by (subst qa) (simp add: calc_q_x_a_def D f(1,7))
    also have "\<dots> = (\<Sum>d\<leftarrow>[1..<nat (n_cat_dim c) + 1].
           (\<Sum>k\<leftarrow>[0..<nat (n_cat_per_dim c)]. q_x_e l ! r ! k ! d * p_e_a self ! a ! k ! d) *
           ?imp ! d)"
      by (rule sum_list_upt_drop_first) (simp_all add: z)
    finally show "fb_expected_reward b ! r ! a =
        (\<Sum>d\<leftarrow>[1..<nat (n_cat_dim c) + 1].
           (\<Sum>k\<leftarrow>[0..<nat (n_cat_per_dim c)]. q_x_e l ! r ! k ! d * p_e_a self ! a ! k ! d) *
           ?imp ! d)" .
  qed
  have ef: "\<forall>r < ?n. expected_rewards_factual l ! r =
        (\<Sum>d\<leftarrow>[1..<nat (n_cat_dim c) + 1].
           ?imp ! d * q_x_e l ! r ! (action_embed l ! r ! d) ! d)"
  proof (intro allI impI)
    fix r assume r: "r < ?n"
    have "expected_rewards_factual l ! r =
        (\<Sum>d\<leftarrow>[0..<nat (n_cat_dim c) + 1].
           ?imp ! d * q_x_e l ! r ! (action_embed l ! r ! d) ! d)"
      using r unfolding n by (subst erf) (simp add: calc_expected_rewards_factual_def D)
    also have "\<dots> = (\<Sum>d\<leftarrow>[1..<nat (n_cat_dim c) + 1].
           ?imp ! d * q_x_e l ! r ! (action_embed l ! r ! d) ! d)"
      by (rule sum_list_upt_drop_first) (simp_all add: z)
    finally show "expected_rewards_factual l ! r =
        (\<Sum>d\<leftarrow>[1..<nat (n_cat_dim c) + 1].
           ?imp ! d * q_x_e l ! r ! (action_embed l ! r ! d) ! d)" .
  qed
  have nonneg: "list_all (\<lambda>w. 0 \<le> w) ?imp" using i(4) [OF assms(3)] .
  have rel: "n_irrelevant_cat_dim c < n_cat_dim c \<longrightarrow>
        sum_list (drop (nat (n_irrelevant_cat_dim c) + 1) ?imp) = 1 \<and> sum_list ?imp = 1"
  proof
    assume lt: "n_irrelevant_cat_dim c < n_cat_dim c"
    have 1: "sum_list (drop (nat (n_irrelevant_cat_dim c) + 1) ?imp) = 1"
      using i(3) [OF assms(3) lt] .
    have "sum_list ?imp = sum_list (drop (nat (n_irrelevant_cat_dim c) + 1) ?imp)"
      using i(1,2) lt f(23) by (intro sum_list_zero_prefix) auto
    with 1 show "sum_list (drop (nat (n_irrelevant_cat_dim c) + 1) ?imp) = 1 \<and>
      sum_list ?imp = 1" by simp
  qed
  have irrel: "n_irrelevant_cat_dim c = n_cat_dim c \<longrightarrow>
        ?imp = replicate (nat (n_cat_dim c) + 1) 0"
    using i(5) by blast
  show ?thesis
    by (rule exI [of _ l], rule exI [of _ g], intro conjI; fact)
qed

theorem padding_slot_has_no_weight_witness:
  "obtain_batch_bandit_feedback example_ops example_self (PInt 2) =
     (Inr (feedback_of example_self example_locals), example_self\<lparr>random_gen := 38\<rparr>) \<and>
   rng_contract example_ops \<and>
   n_irrelevant_cat_dim example_config < n_cat_dim example_config \<and>
   obtain_batch_body example_ops example_self (PInt 2) = (Inr example_locals, 38) \<and>
   cat_dim_importance example_locals ! 0 = 0 \<and>
   sum_list (cat_dim_importance example_locals) = 1"
proof -
  have lt: "n_irrelevant_cat_dim example_config < n_cat_dim example_config"
    by (simp add: example_config_def)
  from padding_slot_has_no_weight [OF example_reachable example_batch example_rng_contract]
  obtain l g where "obtain_batch_body example_ops example_self (PInt 2) = (Inr l, g)"
    and "cat_dim_importance l ! 0 = 0"
    and "n_irrelevant_cat_dim example_config < n_cat_dim example_config \<longrightarrow>
         sum_list (cat_dim_importance l) = 1"
    by blast
  with example_body lt have "cat_dim_importance example_locals ! 0 = 0"
    "sum_list (cat_dim_importance example_locals) = 1"
    by simp_all
  with example_batch example_rng_contract lt example_body show ?thesis by simp
qed

text \<open>
  The claim as stated fails when every dimension is irrelevant: the configuration below
  passes the validation, there is no relevant dimension, the Dirichlet draw is empty, and
  the weights sum to 0 instead of 1; the factual expected rewards are then 0.
\<close>

theorem all_dimensions_irrelevant_counterexample:
  "post_init example_ops example_defaults example_config_irrelevant =
     Inr example_self_irrelevant \<and>
   rng_contract example_ops \<and>
   obtain_batch_body example_ops example_self_irrelevant (PInt 2) =
     (Inr example_locals_irrelevant, 20) \<and>
   sum_list (drop (nat (n_irrelevant_cat_dim example_self_irrelevant))
              (cat_dim_importance example_locals_irrelevant)) = 0 \<and>
   sum_list (cat_dim_importance example_locals_irrelevant) \<noteq> 1 \<and>
   expected_rewards_factual example_locals_irrelevant = [0, 0]"
  using example_post_init_irrelevant example_rng_contract example_body_irrelevant
  by (simp add: example_self_irrelevant_def example_locals_irrelevant_def)

section \<open>When a call returns\<close>

lemma sample_cat_dim_importance_returns:
  assumes "\<forall>g. 0 < fst (next_double ops g)"
  shows "\<exists>imp g'. sample_cat_dim_importance ops self g = (Inr imp, g')"
proof -
  let ?alpha = "fst (draws (next_double ops)
    (nat (n_cat_dim self - n_irrelevant_cat_dim self)) g)"
  have "list_all (\<lambda>a. 0 < a) ?alpha" using assms by (intro draws_all) simp
  then have "\<not> (\<exists>a \<in> set ?alpha. a \<le> 0)" by (auto simp: list_all_iff)
  then show ?thesis
    by (simp add: sample_cat_dim_importance_def dirichlet_def case_prod_beta)
qed

lemma calc_q_x_e_returns:
  assumes rc: "reward_contract self n"
    and lat: "is_tensor (latent_cat_param self) (nat (n_cat_dim self))
                (nat (n_cat_per_dim self)) L"
    and ctx: "length ctx = n"
  shows "\<exists>qe. calc_q_x_e self n ctx = Inr qe"
proof -
  from rc obtain f where f: "reward_function self = Some f" and
    c: "\<And>lat s. length lat = nat (n_cat_per_dim self) \<Longrightarrow>
          is_mat (f ctx lat s) n (nat (n_cat_per_dim self))"
    using ctx by (auto simp: reward_contract_def)
  have "\<exists>ys. for_each
      (\<lambda>d. let q = f ctx (latent_cat_param self ! d) (random_state self + int d)
           in if is_mat q n (nat (n_cat_per_dim self)) then Inr q else Inl ShapeError)
      [0..<nat (n_cat_dim self)] = Inr ys"
  proof (rule for_each_Inr)
    fix d assume "d \<in> set [0..<nat (n_cat_dim self)]"
    then have "d < nat (n_cat_dim self)" by simp
    from is_tensor_nth [OF lat this]
    have "length (latent_cat_param self ! d) = nat (n_cat_per_dim self)"
      by (simp add: is_mat_def)
    from c [OF this] show "\<exists>y. (let q = f ctx (latent_cat_param self ! d)
        (random_state self + int d)
      in if is_mat q n (nat (n_cat_per_dim self)) then Inr q else Inl ShapeError) = Inr y"
      by (simp add: Let_def)
  qed
  then show ?thesis by (auto simp: calc_q_x_e_def f)
qed

lemma calc_pi_b_logits_returns:
  assumes "policy_contract self n" "length ctx = n"
  shows "\<exists>lg. calc_pi_b_logits self n ctx qa = Inr lg"
  using assms
  by (auto simp: calc_pi_b_logits_def policy_contract_def Let_def split: option.splits)

lemma sample_action_fast_returns:
  "0 \<le> seed \<Longrightarrow> seed < 2 ^ 32 \<Longrightarrow> \<exists>acts. sample_action_fast ops pd seed = Inr acts"
  by (simp add: sample_action_fast_def check_random_state_def)

lemma sample_action_embed_returns:
  assumes "n_cat_dim self \<le> 2 ^ 32"
  shows "\<exists>emb. sample_action_embed ops self n acts = Inr emb"
proof -
  have "\<exists>ys. for_each
      (\<lambda>d. sample_action_fast ops (map (\<lambda>a. column (p_e_a self ! a) d) acts) (int d))
      [0..<nat (n_cat_dim self)] = Inr ys"
  proof (rule for_each_Inr)
    fix d assume "d \<in> set [0..<nat (n_cat_dim self)]"
    then have "int d < n_cat_dim self" by auto
    then have "int d < 2 ^ 32" using assms by linarith
    then show "\<exists>y. sample_action_fast ops (map (\<lambda>a. column (p_e_a self ! a) d) acts)
        (int d) = Inr y"
      by (intro sample_action_fast_returns) simp_all
  qed
  then show ?thesis by (auto simp: sample_action_embed_def)
qed

lemma importance_sum_le_one:
  assumes imp: "sample_cat_dim_importance ops self g = (Inr imp, g')"
    and irr: "0 \<le> n_irrelevant_cat_dim self" "n_irrelevant_cat_dim self \<le> n_cat_dim self"
    and rng: "rng_contract ops"
  shows "sum_list imp \<le> 1"
proof (cases "n_irrelevant_cat_dim self < n_cat_dim self")
  case True
  note s = sample_cat_dim_importance_Inr [OF imp irr]
  have "sum_list imp = sum_list (drop (nat (n_irrelevant_cat_dim self)) imp)"
    using s(1,2) irr by (intro sum_list_zero_prefix) auto
  then show ?thesis using s(3) [OF rng True] by simp
next
  case False
  with irr have "n_irrelevant_cat_dim self = n_cat_dim self" by simp
  from sample_cat_dim_importance_Inr(5) [OF imp irr this] show ?thesis
    by (simp add: sum_list_replicate)
qed

lemma weighted_sum_bounds:
  fixes imp :: vec
  assumes len: "length imp = D" and nn: "list_all (\<lambda>w. 0 \<le> w) imp"
    and le: "sum_list imp \<le> 1" and x: "\<forall>d < D. 0 \<le> x d \<and> x d \<le> 1"
  shows "0 \<le> (\<Sum>d\<leftarrow>[0..<D]. imp ! d * x d)" and "(\<Sum>d\<leftarrow>[0..<D]. imp ! d * x d) \<le> 1"
proof -
  have w: "0 \<le> imp ! d" if "d < D" for d
    using nn that len by (simp add: list_all_length)
  show "0 \<le> (\<Sum>d\<leftarrow>[0..<D]. imp ! d * x d)"
    using w x by (intro sum_list_nonneg) auto
  have "(\<Sum>d\<leftarrow>[0..<D]. imp ! d * x d) \<le> (\<Sum>d\<leftarrow>[0..<D]. imp ! d)"
  proof (rule sum_list_mono)
    fix d assume "d \<in> set [0..<D]"
    then have d: "d < D" by simp
    from w [OF d] x d show "imp ! d * x d \<le> imp ! d"
      by (simp add: mult_left_le)
  qed
  also have "\<dots> = sum_list imp" using len by (rule sum_list_nth_upt)
  finally show "(\<Sum>d\<leftarrow>[0..<D]. imp ! d * x d) \<le> 1" using le by simp
qed

lemma calc_q_x_e_nth:
  assumes "calc_q_x_e self n ctx = Inr qe" and "reward_function self = Some f"
    and "r < n" "k < nat (n_cat_per_dim self)" "d < nat (n_cat_dim self)"
  shows "qe ! r ! k ! d = f ctx (latent_cat_param self ! d) (random_state self + int d) ! r ! k"
    and "is_mat (f ctx (latent_cat_param self ! d) (random_state self + int d)) n
           (nat (n_cat_per_dim self))"
proof -
  let ?body = "\<lambda>d. let q = f ctx (latent_cat_param self ! d) (random_state self + int d)
                   in if is_mat q n (nat (n_cat_per_dim self)) then Inr q else Inl ShapeError"
  from assms(1,2) obtain qs where
    qs: "for_each ?body [0..<nat (n_cat_dim self)] = Inr qs" and
    qe: "qe = map (\<lambda>r. map (\<lambda>k. map (\<lambda>q. q ! r ! k) qs) [0..<nat (n_cat_per_dim self)]) [0..<n]"
    by (auto simp: calc_q_x_e_def rbind_eq_Inr)
  from for_each_nth [OF qs, of d] assms(5)
  have q: "?body d = Inr (qs ! d)" by simp
  then have eq: "qs ! d = f ctx (latent_cat_param self ! d) (random_state self + int d)"
    and m: "is_mat (f ctx (latent_cat_param self ! d) (random_state self + int d)) n
           (nat (n_cat_per_dim self))"
    by (auto simp: Let_def split: if_splits)
  show "is_mat (f ctx (latent_cat_param self ! d) (random_state self + int d)) n
           (nat (n_cat_per_dim self))" by (rule m)
  have "length qs = nat (n_cat_dim self)" using for_each_length [OF qs] by simp
  then show "qe ! r ! k ! d =
      f ctx (latent_cat_param self ! d) (random_state self + int d) ! r ! k"
    using assms(3-5) eq by (simp add: qe)
qed

lemma sample_action_embed_nth:
  assumes "sample_action_embed ops self n acts = Inr emb"
    and "r < n" "r < length acts" "d < nat (n_cat_dim self)"
  shows "\<exists>u. emb ! r ! d = sample_row (column (p_e_a self ! (acts ! r)) d) u"
proof -
  let ?body = "\<lambda>d. sample_action_fast ops (map (\<lambda>a. column (p_e_a self ! a) d) acts) (int d)"
  from assms(1) obtain cols where
    cols: "for_each ?body [0..<nat (n_cat_dim self)] = Inr cols" and
    emb: "emb = from_columns n cols"
    by (auto simp: sample_action_embed_def rbind_eq_Inr)
  from for_each_nth [OF cols, of d] assms(4) have c: "?body d = Inr (cols ! d)" by simp
  from sample_action_fast_nth [OF c, of r] assms(3) obtain g where
    "cols ! d ! r = sample_row (column (p_e_a self ! (acts ! r)) d) (fst (next_double ops g))"
    by auto
  moreover have "length cols = nat (n_cat_dim self)" using for_each_length [OF cols] by simp
  ultimately show ?thesis using assms(2,4) by (auto simp: emb from_columns_def)
qed

text \<open>
  A call on a reachable instance with \<open>n \<ge> 1\<close> returns (raises nothing) whenever the
  pluggable functions honour their contracts and no uniform draw is exactly 0 (the
  parameters of the Dirichlet draw must be positive).
\<close>

lemma obtain_batch_body_returns:
  assumes reach: "reachable ops dflt c self"
    and n: "1 \<le> n"
    and rng: "rng_contract ops" "\<forall>g. 0 < fst (next_double ops g)"
    and rc: "reward_contract self (nat n)"
    and pc: "policy_contract self (nat n)"
  shows "\<exists>l g. obtain_batch_body ops self (PInt n) = (Inr l, g)"
proof -
  note f = reachable_facts [OF reach]
  let ?n = "nat n" and ?A = "nat (n_actions self)" and ?K = "nat (n_cat_per_dim self)"
    and ?D = "nat (n_cat_dim self)"
  obtain ctx g1 where ctx: "draws (draws (next_normal ops 0 1) (nat (dim_context self))) ?n
      (random_gen self) = (ctx, g1)"
    by (cases "draws (draws (next_normal ops 0 1) (nat (dim_context self))) ?n
      (random_gen self)") auto
  have lc: "length ctx = ?n" using length_draws [of _ ?n "random_gen self"] ctx
    by (metis fst_conv)
  from sample_cat_dim_importance_returns [OF rng(2)] obtain imp g2 where
    imp: "sample_cat_dim_importance ops self g1 = (Inr imp, g2)" by blast
  have lat: "is_tensor (latent_cat_param self) ?D ?K (nat (latent_param_mat_dim c))"
    using f(31) f(7,9) by simp
  from calc_q_x_e_returns [OF rc lat lc] obtain qe where
    qe: "calc_q_x_e self ?n ctx = Inr qe" by blast
  from calc_pi_b_logits_returns [OF pc lc] obtain lg where
    lg: "calc_pi_b_logits self ?n ctx (calc_q_x_a self ?n qe imp) = Inr lg" by blast
  obtain pb g3 where pb: "calc_pi_b ops self ?n lg g2 = (pb, g3)"
    by (cases "calc_pi_b ops self ?n lg g2") auto
  have seed: "0 \<le> random_state self" "random_state self < 2 ^ 32"
    using f(13,19,27,28) by simp_all
  from sample_action_fast_returns [OF seed] obtain acts where
    acts: "sample_action_fast ops pb (random_state self) = Inr acts" by blast
  have "n_cat_dim self \<le> 2 ^ 32" using f(9,27,28) by simp
  from sample_action_embed_returns [OF this] obtain emb where
    emb: "sample_action_embed ops self ?n acts = Inr emb" by blast
  let ?erf = "calc_expected_rewards_factual self ?n imp qe emb"
  have "\<exists>rw g4. sample_rewards ops self ?erf g3 = (Inr rw, g4)"
  proof (cases "reward_type self = ''binary''")
    case False
    with f(29) f(3) have "RewardType_of (reward_type self) = Inr CONTINUOUS"
      by (auto simp: RewardType_of_def split: if_splits)
    then show ?thesis by (simp add: sample_rewards_def case_prod_beta)
  next
    case True
    then have rt: "RewardType_of (reward_type self) = Inr BINARY"
      by (simp add: RewardType_of_def)
    have irr: "0 \<le> n_irrelevant_cat_dim self" "n_irrelevant_cat_dim self \<le> n_cat_dim self"
      using f(9,11,23,24) by simp_all
    note s = sample_cat_dim_importance_Inr [OF imp irr]
    note le = importance_sum_le_one [OF imp irr rng(1)]
    have lgm: "is_mat lg ?n ?A" using calc_pi_b_logits_Inr(1) [OF lg] .
    have def: "n_deficient_actions self < n_actions self" "0 < n_actions self"
      using f(1,12,15,26) by simp_all
    have pbm: "is_mat pb ?n ?A" using calc_pi_b_shape [OF pb lgm def(1)] .
    have la: "length acts = ?n"
      using sample_action_fast_length [OF acts] pbm by (simp add: is_mat_def)
    have pea: "is_tensor (p_e_a self) ?A ?K ?D" using reachable_p_e_a [OF reach] .
    have K: "0 < ?K" using f(7,17) by simp
    from rc obtain fn where fn: "reward_function self = Some fn" and
      range: "\<And>lat s. length lat = ?K \<Longrightarrow>
              list_all (list_all (\<lambda>x. 0 \<le> x \<and> x \<le> 1)) (fn ctx lat s)"
      using lc True by (auto simp: reward_contract_def)
    have "0 \<le> p \<and> p \<le> 1" if "p \<in> set ?erf" for p
    proof -
      from that obtain r where r: "r < ?n" and
        p: "p = (\<Sum>d\<leftarrow>[0..<?D]. imp ! d * qe ! r ! (emb ! r ! d) ! d)"
        by (auto simp: calc_expected_rewards_factual_def)
      have x: "\<forall>d < ?D. 0 \<le> qe ! r ! (emb ! r ! d) ! d \<and> qe ! r ! (emb ! r ! d) ! d \<le> 1"
      proof (intro allI impI)
        fix d assume d: "d < ?D"
        have rl: "r < length pb" using r pbm by (simp add: is_mat_def)
        from sample_action_fast_nth [OF acts rl] obtain u where
          "acts ! r = sample_row (pb ! r) u" by blast
        moreover have "pb ! r \<noteq> []" using is_mat_nth [OF pbm r] def(2) by auto
        ultimately have ar: "acts ! r < ?A"
          using sample_row_less [of "pb ! r" u] is_mat_nth [OF pbm r] by simp
        from sample_action_embed_nth [OF emb r _ d] la r obtain u' where
          e: "emb ! r ! d = sample_row (column (p_e_a self ! (acts ! r)) d) u'" by auto
        have lk: "length (column (p_e_a self ! (acts ! r)) d) = ?K"
          using is_tensor_nth [OF pea ar] by (simp add: is_mat_def)
        with K have "column (p_e_a self ! (acts ! r)) d \<noteq> []"
          by (auto simp: column_def)
        from sample_row_less [OF this, of u'] have k: "emb ! r ! d < ?K"
          using lk e by simp
        let ?q = "fn ctx (latent_cat_param self ! d) (random_state self + int d)"
        note qn = calc_q_x_e_nth [OF qe fn r k d]
        have "length (latent_cat_param self ! d) = ?K"
          using is_tensor_nth [OF lat d] by (simp add: is_mat_def)
        from range [OF this, of "random_state self + int d"] qn(2) r k
        have "0 \<le> ?q ! r ! (emb ! r ! d) \<and> ?q ! r ! (emb ! r ! d) \<le> 1"
          by (simp add: list_all_length is_mat_def)
        then show "0 \<le> qe ! r ! (emb ! r ! d) ! d \<and> qe ! r ! (emb ! r ! d) ! d \<le> 1"
          using qn(1) by simp
      qed
      from weighted_sum_bounds [OF s(1) s(4) [OF rng(1)] le x] p show ?thesis by simp
    qed
    then have "\<not> (\<exists>p \<in> set ?erf. p < 0 \<or> 1 < p)" by (auto simp: not_less)
    then show ?thesis
      by (simp add: sample_rewards_def rt binomial_def case_prod_beta)
  qed
  then obtain rw g4 where rw: "sample_rewards ops self ?erf g3 = (Inr rw, g4)" by blast
  show ?thesis
    using n ctx imp qe lg pb acts emb rw
    by (simp add: obtain_batch_body_def check_scalar_pyint_def)
qed

lemma obtain_batch_bandit_feedback_returns:
  assumes "reachable ops dflt c self" and "1 \<le> n"
    and "rng_contract ops" "\<forall>g. 0 < fst (next_double ops g)"
    and "reward_contract self (nat n)" and "policy_contract self (nat n)"
  shows "\<exists>b self'. obtain_batch_bandit_feedback ops self (PInt n) = (Inr b, self')"
  using obtain_batch_body_returns [OF assms]
  by (auto simp: obtain_batch_bandit_feedback_Inr)

lemma example_contracts:
  "\<forall>g. 0 < fst (next_double example_ops g)"
  "reward_contract example_self 2"
  "policy_contract example_self 2"
  by (simp_all add: example_ops_def reward_contract_def policy_contract_def example_self_def
      example_reward_def is_mat_def list_all_iff)

text \<open>
  C9. The argument is validated first. A value that is not an integer raises TypeError and
  an integer below 1 raises ValueError, in both cases with the instance, its generator
  included, as it was. An integer \<open>n \<ge> 1\<close> passes the check; whenever the call then
  returns, the dictionary records \<open>n\<close> rounds and its context matrix has shape
  \<open>(n, dim_context)\<close>; and the call does return on a reachable instance when the pluggable
  functions honour their contracts and no uniform draw is exactly 0.
\<close>

theorem n_rounds_is_validated:
  "(case v of
      PInt n \<Rightarrow>
        if n < 1 then obtain_batch_bandit_feedback ops self v = (Inl ValueError, self)
        else check_scalar_pyint v 1 = Inr n \<and>
             (\<forall>b self'. obtain_batch_bandit_feedback ops self v = (Inr b, self') \<longrightarrow>
                fb_n_rounds b = n \<and> is_mat (fb_context b) (nat n) (nat (dim_context self))) \<and>
             (reachable ops dflt c self \<and> rng_contract ops \<and>
              (\<forall>g. 0 < fst (next_double ops g)) \<and>
              reward_contract self (nat n) \<and> policy_contract self (nat n) \<longrightarrow>
                (\<exists>b self'. obtain_batch_bandit_feedback ops self v = (Inr b, self')))
    | _ \<Rightarrow> obtain_batch_bandit_feedback ops self v = (Inl TypeError, self))"
proof (cases "\<forall>n. v = PInt n \<longrightarrow> n < 1")
  case True
  from obtain_batch_body_rejects [OF True, of ops self] True show ?thesis
    by (cases v) (simp_all add: obtain_batch_bandit_feedback_def)
next
  case False
  then obtain n where v: "v = PInt n" and n: "1 \<le> n" by auto
  have shape: "fb_n_rounds b = n \<and> is_mat (fb_context b) (nat n) (nat (dim_context self))"
    if "obtain_batch_bandit_feedback ops self v = (Inr b, self')" for b self'
  proof -
    from that obtain l g where
      body: "obtain_batch_body ops self v = (Inr l, g)" and b: "b = feedback_of self l"
      by (auto simp: obtain_batch_bandit_feedback_Inr)
    from obtain_batch_body_Inr [OF body] v obtain g1 where
      nl: "n_rounds l = n" and
      ctx: "draws (draws (next_normal ops 0 1) (nat (dim_context self))) (nat n)
              (random_gen self) = (contexts l, g1)"
      by auto
    from is_mat_draws [of "next_normal ops 0 1" "nat (dim_context self)" "nat n"
        "random_gen self"] ctx
    have "is_mat (contexts l) (nat n) (nat (dim_context self))" by simp
    then show ?thesis by (simp add: b feedback_of_def nl)
  qed
  have returns: "\<exists>b self'. obtain_batch_bandit_feedback ops self v = (Inr b, self')"
    if "reachable ops dflt c self" "rng_contract ops" "\<forall>g. 0 < fst (next_double ops g)"
      "reward_contract self (nat n)" "policy_contract self (nat n)"
    using obtain_batch_bandit_feedback_returns [OF that(1) n that(2-5)] v by simp
  from shape returns show ?thesis using v n by (simp add: check_scalar_pyint_def)
qed

theorem n_rounds_is_validated_witness:
  "obtain_batch_bandit_feedback example_ops example_self PNone = (Inl TypeError, example_self) \<and>
   obtain_batch_bandit_feedback example_ops example_self (PFloat 2) =
     (Inl TypeError, example_self) \<and>
   obtain_batch_bandit_feedback example_ops example_self (PInt 0) =
     (Inl ValueError, example_self) \<and>
   reachable example_ops example_defaults example_config example_self \<and>
   rng_contract example_ops \<and> reward_contract example_self 2 \<and>
   policy_contract example_self 2 \<and>
   obtain_batch_bandit_feedback example_ops example_self (PInt 2) =
     (Inr (feedback_of example_self example_locals), example_self\<lparr>random_gen := 38\<rparr>) \<and>
   fb_n_rounds (feedback_of example_self example_locals) = 2 \<and>
   is_mat (fb_context (feedback_of example_self example_locals)) 2 1"
proof -
  have d: "nat (dim_context example_self) = 1" by (simp add: example_self_def)
  from n_rounds_is_validated [where v = PNone and ops = example_ops and self = example_self]
    n_rounds_is_validated [where v = "PFloat 2" and ops = example_ops and self = example_self]
    n_rounds_is_validated [where v = "PInt 0" and ops = example_ops and self = example_self]
    n_rounds_is_validated [where v = "PInt 2" and ops = example_ops and self = example_self
      and dflt = example_defaults and c = example_config]
    example_batch d example_reachable example_rng_contract example_contracts
  show ?thesis by simp
qed

section \<open>The environment made explicit\<close>

lemma sample_action_fast_amb_Some:
  "sample_action_fast_amb ops pd (Some s) = (\<lambda>w. (sample_action_fast ops pd s, w))"
  by (rule ext) (simp add: sample_action_fast_amb_def)

lemma for_each_amb_pure: "for_each_amb (\<lambda>x w. (f x, w)) xs w = (for_each f xs, w)"
  by (induction xs) (auto simp: rbind_def split: sum.splits)

lemma softmax_axis1_with_softmax: "softmax_axis1_with softmax = softmax_axis1"
  by (intro ext) (simp add: softmax_axis1_with_def softmax_axis1_def)

lemma calc_pi_b_with_softmax: "calc_pi_b_with softmax = calc_pi_b"
  by (intro ext) (simp add: calc_pi_b_with_def calc_pi_b_def softmax_rows_def)

lemma sample_action_embed_amb_pure:
  "sample_action_embed_amb ops self n acts w = (sample_action_embed ops self n acts, w)"
  by (simp add: sample_action_embed_amb_def sample_action_embed_def
      sample_action_fast_amb_Some for_each_amb_pure rbind_def split: sum.splits)

lemma define_action_embed_amb_softmax:
  "define_action_embed_amb softmax ops c g w = (define_action_embed ops c g, w)"
  by (simp add: define_action_embed_amb_def define_action_embed_def
      sample_action_fast_amb_Some for_each_amb_pure softmax_axis1_with_softmax Let_def rbind_def
      split: sum.splits prod.splits)

lemma define_action_embed_amb_ambient:
  "define_action_embed_amb sm ops c g w = (fst (define_action_embed_amb sm ops c g w'), w)"
  by (simp add: define_action_embed_amb_def
      sample_action_fast_amb_Some for_each_amb_pure Let_def
      split: sum.splits prod.splits)

lemma post_init_amb_softmax:
  "post_init_amb softmax ops dflt c w = (post_init ops dflt c, w)"
  by (simp add: post_init_amb_def post_init_def define_action_embed_amb_softmax rbind_def
      split: sum.splits prod.splits)

lemma post_init_amb_ambient:
  "post_init_amb sm ops dflt c w = (fst (post_init_amb sm ops dflt c w'), w)"
proof -
  have "define_action_embed_amb sm ops c1 g w =
        (fst (define_action_embed_amb sm ops c1 g w'), w)" for c1 g
    by (rule define_action_embed_amb_ambient)
  then show ?thesis
    unfolding post_init_amb_def
    by (auto split: sum.splits prod.splits)
qed

lemma obtain_batch_body_amb_softmax:
  "obtain_batch_body_amb softmax ops self v w = (obtain_batch_body ops self v, w)"
  by (simp add: obtain_batch_body_amb_def obtain_batch_body_def calc_pi_b_with_softmax
      sample_action_fast_amb_Some sample_action_embed_amb_pure
      split: sum.splits prod.splits)

lemma obtain_batch_bandit_feedback_amb_softmax:
  "obtain_batch_bandit_feedback_amb softmax ops self v w =
   (obtain_batch_bandit_feedback ops self v, w)"
  by (simp add: obtain_batch_bandit_feedback_amb_def obtain_batch_bandit_feedback_def
      obtain_batch_body_amb_softmax split: sum.splits prod.splits)

lemma obtain_batch_body_amb_ambient:
  "obtain_batch_body_amb sm ops self v w = (fst (obtain_batch_body_amb sm ops self v w'), w)"
  by (simp add: obtain_batch_body_amb_def
      sample_action_fast_amb_Some sample_action_embed_amb_pure
      split: sum.splits prod.splits)

lemma obtain_batch_bandit_feedback_amb_ambient:
  "obtain_batch_bandit_feedback_amb sm ops self v w =
   (fst (obtain_batch_bandit_feedback_amb sm ops self v w'), w)"
proof -
  have "obtain_batch_body_amb sm ops self v w =
        (fst (obtain_batch_body_amb sm ops self v w'), w)"
    by (rule obtain_batch_body_amb_ambient)
  then show ?thesis
    unfolding obtain_batch_bandit_feedback_amb_def
    by (auto split: sum.splits prod.splits)
qed

text \<open>
  C4. Construct two instances from the same configuration (the seed and the pluggable
  functions are part of it), each in a run of its own, whatever the state of numpy's global
  generator in each run. The two constructions have the same outcome and, when they
  succeed, the two instances are equal, the state of their generators included; the same
  call of \<^verbatim>\<open>obtain_batch_bandit_feedback\<close> on each then has the same result, every field of
  the dictionary and the instance left behind included; and no run advances the global
  generator. This holds for every softmax helper \<open>sm\<close>: the class hands an explicit seed to
  every call of the sampler and draws everything else from the generator of the instance.
\<close>

theorem fresh_instances_give_identical_batches:
  assumes "post_init_amb sm ops dflt c w1 = (r1, w1')"
    and "post_init_amb sm ops dflt c w2 = (r2, w2')"
  shows "r1 = r2 \<and> w1' = w1 \<and> w2' = w2 \<and>
         (\<forall>self1 self2. r1 = Inr self1 \<longrightarrow> r2 = Inr self2 \<longrightarrow>
            self1 = self2 \<and>
            fst (obtain_batch_bandit_feedback_amb sm ops self1 v w1') =
            fst (obtain_batch_bandit_feedback_amb sm ops self2 v w2') \<and>
            snd (obtain_batch_bandit_feedback_amb sm ops self1 v w1') = w1' \<and>
            snd (obtain_batch_bandit_feedback_amb sm ops self2 v w2') = w2')"
proof -
  from post_init_amb_ambient [of sm ops dflt c w1 w2] assms
  have r: "r1 = r2" and w1: "w1' = w1" by simp_all
  from post_init_amb_ambient [of sm ops dflt c w2 w2] assms(2)
  have w2: "w2' = w2" by simp
  have "fst (obtain_batch_bandit_feedback_amb sm ops self v w1') =
        fst (obtain_batch_bandit_feedback_amb sm ops self v w2') \<and>
        snd (obtain_batch_bandit_feedback_amb sm ops self v w1') = w1' \<and>
        snd (obtain_batch_bandit_feedback_amb sm ops self v w2') = w2'" for self
    using obtain_batch_bandit_feedback_amb_ambient [of sm ops self v w1' w2']
      obtain_batch_bandit_feedback_amb_ambient [of sm ops self v w2' w2']
    by (metis fst_conv snd_conv)
  with r w1 w2 show ?thesis by auto
qed

theorem fresh_instances_give_identical_batches_witness:
  "post_init_amb softmax example_ops example_defaults example_config 0 = (Inr example_self, 0) \<and>
   post_init_amb softmax example_ops example_defaults example_config 7 = (Inr example_self, 7) \<and>
   fst (obtain_batch_bandit_feedback_amb softmax example_ops example_self (PInt 2) 0) =
     (Inr (feedback_of example_self example_locals), example_self\<lparr>random_gen := 38\<rparr>) \<and>
   fst (obtain_batch_bandit_feedback_amb softmax example_ops example_self (PInt 2) 7) =
     (Inr (feedback_of example_self example_locals), example_self\<lparr>random_gen := 38\<rparr>) \<and>
   snd (obtain_batch_bandit_feedback_amb softmax example_ops example_self (PInt 2) 7) = 7"
proof -
  have p0: "post_init_amb softmax example_ops example_defaults example_config 0 =
      (Inr example_self, 0)"
    and p7: "post_init_amb softmax example_ops example_defaults example_config 7 =
      (Inr example_self, 7)"
    by (simp_all add: post_init_amb_softmax example_post_init)
  have b0: "fst (obtain_batch_bandit_feedback_amb softmax example_ops example_self (PInt 2) 0) =
     (Inr (feedback_of example_self example_locals), example_self\<lparr>random_gen := 38\<rparr>)"
    by (simp add: obtain_batch_bandit_feedback_amb_softmax example_batch)
  from fresh_instances_give_identical_batches [OF p0 p7, where v = "PInt 2"] b0 p0 p7
  show ?thesis by simp
qed

section \<open>Deficient actions\<close>

lemmas amb_eval = post_init_amb_def define_action_embed_amb_def softmax_axis1_with_def
  softmax_float64_def exp_float64_def sample_action_fast_amb_def
  base_post_init_def check_scalar_def check_scalar_real_def
  check_random_state_def RewardType_of_def draws_def
  next_normal_def column_def slice_dim_def from_columns_def
  sample_action_fast_def sample_row_def cumsum_def argmax_bool_def example_ops_def
  example_config_def example_config_underflow_def example_logits_def
  example_defaults_def Let_def

lemmas amb_batch_eval = obtain_batch_body_amb_def
  calc_pi_b_with_def sample_action_embed_amb_def sample_action_fast_amb_def
  softmax_float64_def exp_float64_def
  check_scalar_pyint_def sample_cat_dim_importance_def dirichlet_def binomial_def
  calc_q_x_e_def calc_q_x_a_def calc_pi_b_logits_def supported_actions_def
  argsort_def calc_expected_rewards_factual_def sample_rewards_def
  is_mat_def example_reward_def example_logits_def
  check_random_state_def RewardType_of_def draws_def
  next_normal_def column_def from_columns_def
  sample_action_fast_def sample_row_def cumsum_def argmax_bool_def example_ops_def Let_def

lemma example_post_init_underflow:
  "post_init_amb softmax_float64 example_ops example_defaults example_config_underflow 0 =
   (Inr example_self_underflow, 0)"
  by (simp add: amb_eval example_self_underflow_def example_self_def numeral_2_eq_2
      numeral_3_eq_3)

lemma example_body_underflow:
  "obtain_batch_body_amb softmax_float64 example_ops example_self_underflow (PInt 1) 0 =
   ((Inr example_locals_underflow, 33), 0)"
  by (simp add: amb_batch_eval example_self_underflow_def example_self_def
      example_locals_underflow_def numeral_2_eq_2 numeral_3_eq_3)

lemma example_batch_underflow:
  "obtain_batch_bandit_feedback_amb softmax_float64 example_ops example_self_underflow
     (PInt 1) 0 =
   ((Inr (feedback_of example_self_underflow example_locals_underflow),
     example_self_underflow\<lparr>random_gen := 33\<rparr>), 0)"
  by (simp add: obtain_batch_bandit_feedback_amb_def example_body_underflow)

lemma length_softmax_float64 [simp]: "length (softmax_float64 xs) = length xs"
  by (simp add: softmax_float64_def)

lemma post_init_amb_Inr:
  assumes "post_init_amb sm ops dflt c w = (Inr self, w')"
  shows "n_actions self = n_actions c" "n_deficient_actions self = n_deficient_actions c"
    "beta self = beta c" "behavior_policy_function self = behavior_policy_function c"
    "random_state self = random_state c"
    and "2 \<le> n_actions c" "0 \<le> n_deficient_actions c"
    "n_deficient_actions c \<le> n_actions c - 1"
proof -
  from assms obtain g0 ac latent pea reg g1 rf where
    base: "base_post_init ops c = Inr (g0, ac)" and
    self: "self = \<lparr>n_actions = n_actions c,
                     dim_context = dim_context c,
                     reward_type = reward_type c,
                     reward_function = rf,
                     reward_std = reward_std c,
                     behavior_policy_function = behavior_policy_function c,
                     beta = beta c,
                     n_cat_per_dim = n_cat_per_dim c,
                     latent_param_mat_dim = latent_param_mat_dim c,
                     n_cat_dim = n_cat_dim c + 1,
                     p_e_a_param_std = p_e_a_param_std c,
                     n_unobserved_cat_dim = n_unobserved_cat_dim c + 1,
                     n_irrelevant_cat_dim = n_irrelevant_cat_dim c + 1,
                     n_deficient_actions = n_deficient_actions c,
                     random_state = random_state c,
                     dataset_name = dataset_name c,
                     random_gen = g1,
                     action_context = ac,
                     latent_cat_param = latent,
                     p_e_a = pea,
                     action_context_reg = reg\<rparr>"
    by (auto simp: post_init_amb_def rbind_eq_Inr split: sum.splits prod.splits option.splits)
  show "n_actions self = n_actions c" "n_deficient_actions self = n_deficient_actions c"
    "beta self = beta c" "behavior_policy_function self = behavior_policy_function c"
    "random_state self = random_state c"
    by (simp_all add: self)
  show "2 \<le> n_actions c" "0 \<le> n_deficient_actions c"
    "n_deficient_actions c \<le> n_actions c - 1"
    using base_post_init_Inr [OF base] by simp_all
qed

lemma obtain_batch_body_amb_Inr:
  assumes "obtain_batch_body_amb sm ops self v w = ((Inr l, g), w')"
  shows "\<exists>g2 g3.
     q_x_a l = calc_q_x_a self (nat (n_rounds l)) (q_x_e l) (cat_dim_importance l) \<and>
     calc_pi_b_logits self (nat (n_rounds l)) (contexts l) (q_x_a l) = Inr (pi_b_logits l) \<and>
     calc_pi_b_with sm ops self (nat (n_rounds l)) (pi_b_logits l) g2 = (pi_b l, g3)"
  using assms unfolding obtain_batch_body_amb_def check_scalar_pyint_def
  by (auto split: pyval.splits if_splits sum.splits prod.splits) blast

lemma obtain_batch_bandit_feedback_amb_Inr:
  "obtain_batch_bandit_feedback_amb sm ops self v w = ((Inr b, self'), w') \<Longrightarrow>
   \<exists>l g. obtain_batch_body_amb sm ops self v w = ((Inr l, g), w') \<and> b = feedback_of self l"
  unfolding obtain_batch_bandit_feedback_amb_def
  by (auto split: sum.splits prod.splits)

lemma calc_pi_b_with_deficient:
  assumes pb: "calc_pi_b_with sm ops self n logits g = (pb, g')"
    and def: "0 < n_deficient_actions self" "n_deficient_actions self < n_actions self"
    and r: "r < n"
  shows "\<exists>sa. length sa = nat (n_actions self - n_deficient_actions self) \<and> distinct sa \<and>
           (\<forall>i \<in> set sa. i < nat (n_actions self)) \<and>
           pb ! r = scatter (replicate (nat (n_actions self)) 0) sa
                      (sm (map (\<lambda>a. beta self * logits ! r ! a) sa))"
    and "length pb = n"
proof -
  let ?A = "nat (n_actions self)" and ?k = "nat (n_actions self - n_deficient_actions self)"
  let ?gum = "fst (draws (draws (next_gumbel ops) ?A) n g)"
  let ?sa = "supported_actions ?k ?gum"
  from pb def(1) have pbeq:
    "pb = map (\<lambda>r. scatter (replicate ?A 0) (?sa ! r)
                 (sm (map (\<lambda>a. beta self * logits ! r ! a) (?sa ! r)))) [0..<n]"
    by (auto simp: calc_pi_b_with_def Let_def split: prod.splits)
  show "length pb = n" by (simp add: pbeq)
  have gm: "is_mat ?gum n ?A" by (rule is_mat_draws)
  then have len: "length (?gum ! r) = ?A" using r by (rule is_mat_nth)
  have k: "?k \<le> ?A" using def by simp
  have sa: "?sa ! r = take ?k (rev (argsort (?gum ! r)))"
    using r gm by (simp add: supported_actions_def is_mat_def)
  note s = supported_actions_row [OF len k]
  show "\<exists>sa. length sa = ?k \<and> distinct sa \<and> (\<forall>i \<in> set sa. i < ?A) \<and>
           pb ! r = scatter (replicate ?A 0) sa
                      (sm (map (\<lambda>a. beta self * logits ! r ! a) sa))"
    using s r by (intro exI [of _ "?sa ! r"]) (simp add: pbeq sa)
qed


text \<open>
  C2, as amended. With \<open>k > 0\<close> deficient actions, in every round there is a set of exactly
  \<open>n_actions - k\<close> supported actions: every other action has probability exactly 0, and the
  supported actions carry the softmax of \<open>beta\<close> times their logits, restricted to them. So
  at most \<open>n_actions - k\<close> actions have a probability that is not 0, and exactly that many
  when no entry of that softmax is 0. This holds for every softmax helper \<open>sm\<close> that
  returns as many entries as it is given, the one that underflows included.
\<close>

theorem unsupported_actions_have_zero_probability:
  assumes "post_init_amb sm ops dflt c w0 = (Inr self0, w0')"
    and "obtain_batch_bandit_feedback_amb sm ops (self0\<lparr>random_gen := g\<rparr>) v w =
           ((Inr b, self'), w')"
    and "0 < n_deficient_actions c"
    and "\<forall>xs. length (sm xs) = length xs"
  shows "\<forall>r < nat (fb_n_rounds b). \<exists>sa.
           length sa = nat (n_actions c - n_deficient_actions c) \<and> distinct sa \<and>
           (\<forall>i \<in> set sa. i < nat (n_actions c)) \<and>
           (\<forall>a < nat (n_actions c). a \<notin> set sa \<longrightarrow> fb_pi_b b ! r ! a ! 0 = 0) \<and>
           (\<forall>i < length sa.
              fb_pi_b b ! r ! (sa ! i) ! 0 =
                sm (map (\<lambda>a. beta c * behavior_logits self0 b ! r ! a) sa) ! i) \<and>
           card {a. a < nat (n_actions c) \<and> fb_pi_b b ! r ! a ! 0 \<noteq> 0} \<le>
             nat (n_actions c - n_deficient_actions c) \<and>
           ((\<forall>x \<in> set (sm (map (\<lambda>a. beta c * behavior_logits self0 b ! r ! a) sa)). x \<noteq> 0) \<longrightarrow>
              card {a. a < nat (n_actions c) \<and> fb_pi_b b ! r ! a ! 0 \<noteq> 0} =
                nat (n_actions c - n_deficient_actions c))"
proof (intro allI impI)
  fix r assume r: "r < nat (fb_n_rounds b)"
  let ?self = "self0\<lparr>random_gen := g\<rparr>"
  let ?A = "nat (n_actions c)"
  note f = post_init_amb_Inr [OF assms(1)]
  from obtain_batch_bandit_feedback_amb_Inr [OF assms(2)] obtain l g' where
    body: "obtain_batch_body_amb sm ops ?self v w = ((Inr l, g'), w')" and
    b: "b = feedback_of ?self l"
    by blast
  have n: "fb_n_rounds b = n_rounds l" by (simp add: b feedback_of_def)
  from obtain_batch_body_amb_Inr [OF body] obtain g2 g3 where
    qa: "q_x_a l = calc_q_x_a ?self (nat (n_rounds l)) (q_x_e l) (cat_dim_importance l)" and
    lg: "calc_pi_b_logits ?self (nat (n_rounds l)) (contexts l) (q_x_a l) =
           Inr (pi_b_logits l)" and
    pb: "calc_pi_b_with sm ops ?self (nat (n_rounds l)) (pi_b_logits l) g2 = (pi_b l, g3)"
    by blast
  have logits: "pi_b_logits l = behavior_logits self0 b"
    using calc_pi_b_logits_Inr(2) [OF lg [unfolded qa]] qa
    by (simp add: behavior_logits_def b feedback_of_def split: option.splits)
  have def: "0 < n_deficient_actions ?self" "n_deficient_actions ?self < n_actions ?self"
    using assms(3) f(1,2,6,8) by simp_all
  from calc_pi_b_with_deficient(1) [OF pb def r [unfolded n]] obtain sa where
    sa1: "length sa = nat (n_actions c - n_deficient_actions c)" and sa2: "distinct sa" and
    sa3: "\<forall>i \<in> set sa. i < ?A" and
    row: "pi_b l ! r = scatter (replicate ?A 0) sa
            (sm (map (\<lambda>a. beta c * pi_b_logits l ! r ! a) sa))"
    using f(1,2,3) by auto
  let ?vals = "sm (map (\<lambda>a. beta c * behavior_logits self0 b ! r ! a) sa)"
  have row': "pi_b l ! r = scatter (replicate ?A 0) sa ?vals"
    using row logits by simp
  have lenpb: "length (pi_b l) = nat (n_rounds l)"
    using calc_pi_b_with_deficient(2) [OF pb def r [unfolded n]] .
  have rl: "r < length (pi_b l)" using r n lenpb by simp
  have lr: "length (pi_b l ! r) = ?A" by (simp add: row')
  have fb: "fb_pi_b b ! r ! a ! 0 = pi_b l ! r ! a" if "a < ?A" for a
    using that rl lr by (simp add: b feedback_of_def)
  have lv: "length sa = length ?vals" using assms(4) by simp
  have zero: "\<forall>a < ?A. a \<notin> set sa \<longrightarrow> fb_pi_b b ! r ! a ! 0 = 0"
    by (simp add: fb row' scatter_nth_other)
  have written: "\<forall>i < length sa. fb_pi_b b ! r ! (sa ! i) ! 0 = ?vals ! i"
  proof (intro allI impI)
    fix i assume i: "i < length sa"
    then have si: "sa ! i < ?A" using sa3 by simp
    have "pi_b l ! r ! (sa ! i) = ?vals ! i"
      unfolding row' using sa2 lv i si by (intro scatter_nth_written) simp_all
    then show "fb_pi_b b ! r ! (sa ! i) ! 0 = ?vals ! i" using fb [OF si] by simp
  qed
  have sub: "{a. a < ?A \<and> fb_pi_b b ! r ! a ! 0 \<noteq> 0} \<subseteq> set sa"
    using zero by auto
  have "card {a. a < ?A \<and> fb_pi_b b ! r ! a ! 0 \<noteq> 0} \<le> card (set sa)"
    using sub by (intro card_mono) simp_all
  then have atmost: "card {a. a < ?A \<and> fb_pi_b b ! r ! a ! 0 \<noteq> 0} \<le>
      nat (n_actions c - n_deficient_actions c)"
    using sa1 sa2 by (simp add: distinct_card)
  have exact: "(\<forall>x \<in> set ?vals. x \<noteq> 0) \<longrightarrow>
      card {a. a < ?A \<and> fb_pi_b b ! r ! a ! 0 \<noteq> 0} =
        nat (n_actions c - n_deficient_actions c)"
  proof
    assume nz: "\<forall>x \<in> set ?vals. x \<noteq> 0"
    have "{a. a < ?A \<and> fb_pi_b b ! r ! a ! 0 \<noteq> 0} = {a. a < ?A \<and> pi_b l ! r ! a \<noteq> 0}"
      using fb by auto
    also have "\<dots> = set sa"
      unfolding row' using sa2 lv sa3 nz by (rule scatter_zeros_support)
    finally show "card {a. a < ?A \<and> fb_pi_b b ! r ! a ! 0 \<noteq> 0} =
        nat (n_actions c - n_deficient_actions c)"
      using sa1 sa2 by (simp add: distinct_card)
  qed
  show "\<exists>sa.
           length sa = nat (n_actions c - n_deficient_actions c) \<and> distinct sa \<and>
           (\<forall>i \<in> set sa. i < ?A) \<and>
           (\<forall>a < ?A. a \<notin> set sa \<longrightarrow> fb_pi_b b ! r ! a ! 0 = 0) \<and>
           (\<forall>i < length sa.
              fb_pi_b b ! r ! (sa ! i) ! 0 =
                sm (map (\<lambda>a. beta c * behavior_logits self0 b ! r ! a) sa) ! i) \<and>
           card {a. a < ?A \<and> fb_pi_b b ! r ! a ! 0 \<noteq> 0} \<le>
             nat (n_actions c - n_deficient_actions c) \<and>
           ((\<forall>x \<in> set (sm (map (\<lambda>a. beta c * behavior_logits self0 b ! r ! a) sa)). x \<noteq> 0) \<longrightarrow>
              card {a. a < ?A \<and> fb_pi_b b ! r ! a ! 0 \<noteq> 0} =
                nat (n_actions c - n_deficient_actions c))"
    by (rule exI [of _ sa], intro conjI; fact)
qed

theorem unsupported_actions_have_zero_probability_witness:
  "post_init_amb softmax_float64 example_ops example_defaults example_config_underflow 0 =
     (Inr example_self_underflow, 0) \<and>
   obtain_batch_bandit_feedback_amb softmax_float64 example_ops example_self_underflow
       (PInt 1) 0 =
     ((Inr (feedback_of example_self_underflow example_locals_underflow),
       example_self_underflow\<lparr>random_gen := 33\<rparr>), 0) \<and>
   0 < n_deficient_actions example_config_underflow \<and>
   card {a. a < 3 \<and>
           fb_pi_b (feedback_of example_self_underflow example_locals_underflow) ! 0 ! a ! 0 \<noteq> 0}
     \<le> 2"
proof -
  have k: "0 < n_deficient_actions example_config_underflow"
    by (simp add: example_config_underflow_def example_config_def)
  have len: "\<forall>xs. length (softmax_float64 xs) = length xs" by simp
  have s: "example_self_underflow\<lparr>random_gen := 24\<rparr> = example_self_underflow"
    by (simp add: example_self_underflow_def example_self_def)
  have d: "nat (fb_n_rounds (feedback_of example_self_underflow example_locals_underflow)) = 1"
    "nat (n_actions example_config_underflow) = 3"
    "nat (n_actions example_config_underflow - n_deficient_actions example_config_underflow)
       = 2"
    by (simp_all add: feedback_of_def example_locals_underflow_def example_config_underflow_def
        example_config_def)
  have batch: "obtain_batch_bandit_feedback_amb softmax_float64 example_ops
      (example_self_underflow\<lparr>random_gen := 24\<rparr>) (PInt 1) 0 =
     ((Inr (feedback_of example_self_underflow example_locals_underflow),
       example_self_underflow\<lparr>random_gen := 33\<rparr>), 0)"
    unfolding s by (rule example_batch_underflow)
  from unsupported_actions_have_zero_probability [OF example_post_init_underflow
      batch k len, unfolded d, rule_format, of 0]
  have "card {a. a < 3 \<and>
      fb_pi_b (feedback_of example_self_underflow example_locals_underflow) ! 0 ! a ! 0 \<noteq> 0}
     \<le> 2"
    by auto
  with example_post_init_underflow example_batch_underflow k show ?thesis by simp
qed

text \<open>
  The claim as stated fails on float64. With three actions of which one is deficient, the
  logits 2, 1 and 0 and \<open>beta = -1000\<close>, the supported actions of the round are the last two;
  their exponents are -1000 and 0 and the first underflows, so that one action, not two,
  has a probability that is not 0.
\<close>

theorem underflow_counterexample:
  "post_init_amb softmax_float64 example_ops example_defaults example_config_underflow 0 =
     (Inr example_self_underflow, 0) \<and>
   obtain_batch_bandit_feedback_amb softmax_float64 example_ops example_self_underflow
       (PInt 1) 0 =
     ((Inr (feedback_of example_self_underflow example_locals_underflow),
       example_self_underflow\<lparr>random_gen := 33\<rparr>), 0) \<and>
   n_actions example_self_underflow = 3 \<and> n_deficient_actions example_self_underflow = 1 \<and>
   fb_pi_b (feedback_of example_self_underflow example_locals_underflow) ! 0 = [[0], [0], [1]]"
  using example_post_init_underflow example_batch_underflow
  by (simp add: example_self_underflow_def example_self_def feedback_of_def
      example_locals_underflow_def)

end
